(* ===== verification/Prelude.thy ===== *)
theory Prelude
  imports Main "HOL-Library.Word"
begin

text \<open>
  Shared vocabulary of the development: the machine integers and byte strings of the
  crate, the result of a Rust function that may return \<open>Ok\<close>, return \<open>Err\<close> or panic,
  slicing with its bounds checks, little-endian integer encodings
  (\<open>to_le_bytes\<close> / \<open>from_le_bytes\<close>), monotonic time (\<open>Instant\<close>, \<open>Duration\<close>), and a
  locale for components that are driven by a list of events.
\<close>

unbundle bit_operations_syntax

named_theorems slice_simps \<open>evaluation of slices that are in bounds\<close>
named_theorems wire_len \<open>lengths of encoded fields\<close>
named_theorems time_simps \<open>conversions between time units\<close>

subsection \<open>Machine integers\<close>

type_synonym u8 = "8 word"
type_synonym u16 = "16 word"
type_synonym u32 = "32 word"
type_synonym u64 = "64 word"

text \<open>An \<open>i64\<close> is the same 64 bits, read by \<^const>\<open>sint\<close>.\<close>

type_synonym i64 = "64 word"
type_synonym bytes = "u8 list"

subsection \<open>Results and panics\<close>

text \<open>
  \<open>Result<T, E>\<close> of the source, with one more outcome for a panic (a slice out of
  bounds, an \<open>unwrap\<close> of a failure, an explicit \<open>panic!\<close>): a panic is a value of the
  model, so that its absence is a theorem and not a convention.
\<close>

datatype ('a, 'e) res = Ok 'a | Err 'e | Panic

fun bind_res :: "('a, 'e) res \<Rightarrow> ('a \<Rightarrow> ('b, 'e) res) \<Rightarrow> ('b, 'e) res" where
  "bind_res (Ok x) f = f x"
| "bind_res (Err e) f = Err e"
| "bind_res Panic f = Panic"

lemma bind_res_eq_Ok [simp]:
  "bind_res m f = Ok y \<longleftrightarrow> (\<exists>x. m = Ok x \<and> f x = Ok y)"
  by (cases m) auto

lemma bind_res_eq_Panic:
  "bind_res m f = Panic \<longleftrightarrow> m = Panic \<or> (\<exists>x. m = Ok x \<and> f x = Panic)"
  by (cases m) auto

lemma bind_res_eq_Err:
  "bind_res m f = Err e \<longleftrightarrow> m = Err e \<or> (\<exists>x. m = Ok x \<and> f x = Err e)"
  by (cases m) auto

lemma bind_res_assoc: "bind_res (bind_res m f) g = bind_res m (\<lambda>x. bind_res (f x) g)"
  by (cases m) auto

text \<open>\<open>ok_or\<close> and \<open>map_err\<close> on an option.\<close>

definition ok_or :: "'a option \<Rightarrow> 'e \<Rightarrow> ('a, 'e) res" where
  "ok_or x e = (case x of None \<Rightarrow> Err e | Some v \<Rightarrow> Ok v)"

lemma ok_or_simps [simp]: "ok_or None e = Err e" "ok_or (Some v) e = Ok v"
  by (simp_all add: ok_or_def)

lemma ok_or_not_Panic [simp]: "ok_or x e \<noteq> Panic"
  by (cases x) simp_all

lemma ok_or_eq_Ok [simp]: "ok_or x e = Ok v \<longleftrightarrow> x = Some v"
  by (cases x) simp_all

subsection \<open>Slices\<close>

text \<open>\<open>&bs[..n]\<close>, \<open>&bs[n..]\<close>, \<open>&bs[i..j]\<close> and \<open>bs[i]\<close>: out of bounds is a panic.\<close>

definition slice_to :: "'a list \<Rightarrow> nat \<Rightarrow> ('a list, 'e) res" where
  "slice_to xs n = (if n \<le> length xs then Ok (take n xs) else Panic)"

definition slice_from :: "'a list \<Rightarrow> nat \<Rightarrow> ('a list, 'e) res" where
  "slice_from xs n = (if n \<le> length xs then Ok (drop n xs) else Panic)"

definition slice_range :: "'a list \<Rightarrow> nat \<Rightarrow> nat \<Rightarrow> ('a list, 'e) res" where
  "slice_range xs i j = (if i \<le> j \<and> j \<le> length xs then Ok (take (j - i) (drop i xs)) else Panic)"

definition index_at :: "'a list \<Rightarrow> nat \<Rightarrow> ('a, 'e) res" where
  "index_at xs i = (if i < length xs then Ok (xs ! i) else Panic)"

lemma slice_to_ok [slice_simps]: "n \<le> length xs \<Longrightarrow> slice_to xs n = Ok (take n xs)"
  by (simp add: slice_to_def)

lemma slice_from_ok [slice_simps]: "n \<le> length xs \<Longrightarrow> slice_from xs n = Ok (drop n xs)"
  by (simp add: slice_from_def)

lemma slice_range_ok [slice_simps]:
  "i \<le> j \<Longrightarrow> j \<le> length xs \<Longrightarrow> slice_range xs i j = Ok (take (j - i) (drop i xs))"
  by (simp add: slice_range_def)

lemma index_at_ok [slice_simps]: "i < length xs \<Longrightarrow> index_at xs i = Ok (xs ! i)"
  by (simp add: index_at_def)

text \<open>Peeling one field of width \<open>n\<close> off the remaining bytes.\<close>

lemma drop_take_step: "drop i xs = take n (drop i xs) @ drop (i + n) xs"
  by (metis add.commute append_take_drop_id drop_drop)

subsection \<open>Little-endian encodings\<close>

definition le_bytes :: "nat \<Rightarrow> 'a::len word \<Rightarrow> bytes" where
  "le_bytes n w = map (\<lambda>i. ucast (drop_bit (8 * i) w)) [0..<n]"

fun le_word :: "bytes \<Rightarrow> 'a::len word" where
  "le_word [] = 0"
| "le_word (b # bs) = ucast b OR push_bit 8 (le_word bs)"

lemma length_le_bytes [simp, wire_len]: "length (le_bytes n w) = n"
  by (simp add: le_bytes_def)

lemma nth_le_bytes: "i < n \<Longrightarrow> le_bytes n w ! i = ucast (drop_bit (8 * i) w)"
  by (simp add: le_bytes_def)

lemma bit_le_word:
  "bit (le_word bs :: 'a::len word) k \<longleftrightarrow>
     k < LENGTH('a) \<and> k div 8 < length bs \<and> bit (bs ! (k div 8)) (k mod 8)"
proof (induction bs arbitrary: k)
  case Nil
  then show ?case by simp
next
  case (Cons b bs)
  show ?case
  proof (cases "k < 8")
    case True
    then show ?thesis by (auto simp: bit_simps)
  next
    case False
    then have le: "8 \<le> k" by simp
    define j where "j = k - 8"
    from le have k: "k = 8 + j" by (simp add: j_def)
    have "\<not> bit b k" using le by (auto dest: bit_imp_le_length)
    moreover have "(8 + j) div 8 = Suc (j div 8)" by simp
    ultimately show ?thesis
      using Cons.IH [of j] by (auto simp: k bit_simps)
  qed
qed

lemma le_word_le_bytes:
  assumes "LENGTH('a::len) = 8 * n"
  shows "le_word (le_bytes n w) = (w :: 'a word)"
proof (rule bit_word_eqI)
  fix k assume k: "k < LENGTH('a)"
  then have div: "k div 8 < n" using assms by simp
  have "8 * (k div 8) + k mod 8 = k" by simp
  with k div show "bit (le_word (le_bytes n w) :: 'a word) k = bit w k"
    by (simp add: bit_le_word nth_le_bytes bit_simps)
qed

lemma le_bytes_le_word:
  assumes "length bs = n" and "8 * n \<le> LENGTH('a::len)"
  shows "le_bytes n (le_word bs :: 'a word) = bs"
proof (rule nth_equalityI)
  show "length (le_bytes n (le_word bs :: 'a word)) = length bs"
    using assms by simp
next
  fix i assume "i < length (le_bytes n (le_word bs :: 'a word))"
  then have i: "i < n" by simp
  show "le_bytes n (le_word bs :: 'a word) ! i = bs ! i"
  proof (rule bit_word_eqI)
    fix k assume "k < LENGTH(8)"
    then have k: "k < 8" by simp
    then have "(8 * i + k) div 8 = i" "(8 * i + k) mod 8 = k" by simp_all
    moreover have "8 * i + k < LENGTH('a)" using assms i k by linarith
    ultimately show "bit (le_bytes n (le_word bs :: 'a word) ! i) k = bit (bs ! i) k"
      using i k assms by (simp add: nth_le_bytes bit_simps bit_le_word)
  qed
qed

text \<open>The widths the wire format uses.\<close>

lemma le_word_16 [simp]: "le_word (le_bytes 2 w) = (w :: u16)"
  by (rule le_word_le_bytes) simp

lemma le_word_32 [simp]: "le_word (le_bytes 4 w) = (w :: u32)"
  by (rule le_word_le_bytes) simp

lemma le_word_64 [simp]: "le_word (le_bytes 8 w) = (w :: u64)"
  by (rule le_word_le_bytes) simp

lemma le_bytes_unfold:
  "le_bytes 2 w = [ucast w, ucast (drop_bit 8 w)]"
  "le_bytes 4 w = [ucast w, ucast (drop_bit 8 w), ucast (drop_bit 16 w), ucast (drop_bit 24 w)]"
  "le_bytes 8 w = [ucast w, ucast (drop_bit 8 w), ucast (drop_bit 16 w), ucast (drop_bit 24 w),
     ucast (drop_bit 32 w), ucast (drop_bit 40 w), ucast (drop_bit 48 w), ucast (drop_bit 56 w)]"
  by (simp_all add: le_bytes_def upt_rec)

subsection \<open>Time\<close>

text \<open>
  \<open>Instant\<close> and \<open>Duration\<close> count nanoseconds. \<open>Instant::elapsed\<close> saturates at zero, as
  subtraction of natural numbers does; \<open>as_secs\<close> drops the fraction.
\<close>

type_synonym instant = nat
type_synonym duration = nat

definition ns_per_ms :: nat where "ns_per_ms = 1000000"
definition ns_per_sec :: nat where "ns_per_sec = 1000000000"

definition from_millis :: "nat \<Rightarrow> duration" where
  "from_millis n = n * ns_per_ms"

definition from_secs :: "nat \<Rightarrow> duration" where
  "from_secs n = n * ns_per_sec"

definition as_secs :: "duration \<Rightarrow> nat" where
  "as_secs d = d div ns_per_sec"

definition elapsed :: "instant \<Rightarrow> instant \<Rightarrow> duration" where
  "elapsed now tm = now - tm"

lemmas time_defs [time_simps] =
  ns_per_ms_def ns_per_sec_def from_millis_def from_secs_def as_secs_def elapsed_def

lemma as_secs_less: "0 < n \<Longrightarrow> as_secs (elapsed now tm) < n \<longleftrightarrow> now < tm + from_secs n"
  by (auto simp: time_simps div_less_iff_less_mult)

lemma as_secs_elapsed_mono: "now \<le> now' \<Longrightarrow> as_secs (elapsed now tm) \<le> as_secs (elapsed now' tm)"
  by (simp add: as_secs_def elapsed_def div_le_mono diff_le_mono)

subsection \<open>Components driven by events\<close>

text \<open>
  A component that reacts to one event at a time: an invariant that holds at the start
  and that every admissible event keeps holds after any run of admissible events.
\<close>

locale event_machine =
  fixes step :: "'s \<Rightarrow> 'e \<Rightarrow> 's"
    and admissible :: "'e \<Rightarrow> bool"
    and start :: "'s"
    and inv :: "'s \<Rightarrow> bool"
  assumes inv_start: "inv start"
    and inv_step: "inv s \<Longrightarrow> admissible e \<Longrightarrow> inv (step s e)"
begin

lemma inv_run_from:
  "inv s \<Longrightarrow> (\<And>e. e \<in> set es \<Longrightarrow> admissible e) \<Longrightarrow> inv (foldl step s es)"
  by (induction es arbitrary: s) (auto intro: inv_step)

lemma inv_run: "(\<And>e. e \<in> set es \<Longrightarrow> admissible e) \<Longrightarrow> inv (foldl step start es)"
  by (rule inv_run_from [OF inv_start])

end

end
