(* ===== verification/Rust_Collections.thy ===== *)
theory Rust_Collections
  imports Prelude "HOL-Library.AList"
begin

text \<open>
  The containers of the Rust standard library that the crate keeps its state in.
  A \<open>HashMap\<close> is an association list with distinct keys; its order stands for the
  unspecified iteration order. A \<open>BTreeMap\<close> is an association list with strictly
  ascending keys, the order its iterators use. Both implement the interface
  \<open>finite_table\<close> the components rely on; a \<open>BTreeMap\<close> also implements \<open>ordered_table\<close>.
\<close>

subsection \<open>The interface\<close>

locale finite_table =
  fixes tempty :: "'m"
    and tget :: "'m \<Rightarrow> 'k \<Rightarrow> 'v option"
    and tinsert :: "'k \<Rightarrow> 'v \<Rightarrow> 'm \<Rightarrow> 'm"
    and tremove :: "'k \<Rightarrow> 'm \<Rightarrow> 'm"
    and tretain :: "('k \<Rightarrow> 'v \<Rightarrow> bool) \<Rightarrow> 'm \<Rightarrow> 'm"
    and tok :: "'m \<Rightarrow> bool"
  assumes get_empty: "tget tempty k = None"
    and get_insert: "tok m \<Longrightarrow> tget (tinsert k v m) j = (if j = k then Some v else tget m j)"
    and get_remove: "tok m \<Longrightarrow> tget (tremove k m) j = (if j = k then None else tget m j)"
    and get_retain: "tok m \<Longrightarrow> tget (tretain P m) j =
      (case tget m j of None \<Rightarrow> None | Some v \<Rightarrow> if P j v then Some v else None)"
    and ok_empty: "tok tempty"
    and ok_insert: "tok m \<Longrightarrow> tok (tinsert k v m)"
    and ok_remove: "tok m \<Longrightarrow> tok (tremove k m)"
    and ok_retain: "tok m \<Longrightarrow> tok (tretain P m)"
begin

lemmas table_get = get_empty get_insert get_remove get_retain
lemmas table_ok = ok_empty ok_insert ok_remove ok_retain

text \<open>\<open>entry(k).or_insert(d)\<close>: an entry that exists is left alone.\<close>

lemma get_entry_or:
  "tok m \<Longrightarrow> tget (case tget m k of None \<Rightarrow> tinsert k d m | Some _ \<Rightarrow> m) j =
     (if j = k \<and> tget m k = None then Some d else tget m j)"
  by (simp add: get_insert split: option.split)

lemma ok_entry_or: "tok m \<Longrightarrow> tok (case tget m k of None \<Rightarrow> tinsert k d m | Some _ \<Rightarrow> m)"
  by (simp add: ok_insert split: option.split)

lemma fold_entry_or:
  assumes "tok m"
  shows "tok (fold (\<lambda>k m. case tget m k of None \<Rightarrow> tinsert k d m | Some _ \<Rightarrow> m) ks m) \<and>
    tget (fold (\<lambda>k m. case tget m k of None \<Rightarrow> tinsert k d m | Some _ \<Rightarrow> m) ks m) j =
      (if j \<in> set ks \<and> tget m j = None then Some d else tget m j)"
  using assms
proof (induction ks arbitrary: m)
  case Nil
  then show ?case by simp
next
  case (Cons k ks)
  let ?m = "case tget m k of None \<Rightarrow> tinsert k d m | Some _ \<Rightarrow> m"
  from Cons.prems have ok: "tok ?m" by (rule ok_entry_or)
  show ?case
    using Cons.IH [OF ok] get_entry_or [OF Cons.prems, of k d j] by auto
qed

text \<open>Adding a list of keys and then retaining only those keys replaces the key set.\<close>

lemma get_replace_keys:
  assumes "tok m"
  shows "tget (tretain (\<lambda>k _. k \<in> set ks)
      (fold (\<lambda>k m. case tget m k of None \<Rightarrow> tinsert k d m | Some _ \<Rightarrow> m) ks m)) j =
    (if j \<in> set ks then Some (case tget m j of None \<Rightarrow> d | Some v \<Rightarrow> v) else None)"
  using fold_entry_or [OF assms, of d ks j] by (auto simp: get_retain split: option.splits)

end

locale ordered_table =
  finite_table tempty tget tinsert tremove tretain tok
  for tempty :: "'m"
    and tget :: "'m \<Rightarrow> 'k::linorder \<Rightarrow> 'v option"
    and tinsert :: "'k \<Rightarrow> 'v \<Rightarrow> 'm \<Rightarrow> 'm"
    and tremove :: "'k \<Rightarrow> 'm \<Rightarrow> 'm"
    and tretain :: "('k \<Rightarrow> 'v \<Rightarrow> bool) \<Rightarrow> 'm \<Rightarrow> 'm"
    and tok :: "'m \<Rightarrow> bool" +
  fixes tkeys :: "'m \<Rightarrow> 'k list"
  assumes keys_sorted: "tok m \<Longrightarrow> sorted_wrt (<) (tkeys m)"
    and keys_get: "tok m \<Longrightarrow> k \<in> set (tkeys m) \<longleftrightarrow> tget m k \<noteq> None"
begin

lemma keys_distinct: "tok m \<Longrightarrow> distinct (tkeys m)"
  using keys_sorted [of m] by (simp add: strict_sorted_iff)

text \<open>Two tables with the same keys iterate in the same order.\<close>

lemma keys_unique:
  assumes "tok m" "tok m'" "\<And>k. tget m k \<noteq> None \<longleftrightarrow> tget m' k \<noteq> None"
  shows "tkeys m = tkeys m'"
proof -
  have "set (tkeys m) = set (tkeys m')"
    using assms by (auto simp: keys_get)
  with assms(1,2) show ?thesis
    by (meson keys_sorted strict_sorted_equal)
qed

end

subsection \<open>HashMap\<close>

type_synonym ('k, 'v) hmap = "('k \<times> 'v) list"

definition hm_ok :: "('k, 'v) hmap \<Rightarrow> bool" where
  "hm_ok m \<longleftrightarrow> distinct (map fst m)"

definition hm_get :: "('k, 'v) hmap \<Rightarrow> 'k \<Rightarrow> 'v option" where
  "hm_get m k = map_of m k"

definition hm_insert :: "'k \<Rightarrow> 'v \<Rightarrow> ('k, 'v) hmap \<Rightarrow> ('k, 'v) hmap" where
  "hm_insert k v m = AList.update k v m"

definition hm_remove :: "'k \<Rightarrow> ('k, 'v) hmap \<Rightarrow> ('k, 'v) hmap" where
  "hm_remove k m = AList.delete k m"

definition hm_retain :: "('k \<Rightarrow> 'v \<Rightarrow> bool) \<Rightarrow> ('k, 'v) hmap \<Rightarrow> ('k, 'v) hmap" where
  "hm_retain P m = filter (\<lambda>(k, v). P k v) m"

text \<open>\<open>HashMap::from_iter\<close>: later duplicates overwrite earlier ones.\<close>

definition hm_from_iter :: "('k \<times> 'v) list \<Rightarrow> ('k, 'v) hmap" where
  "hm_from_iter kvs = fold (\<lambda>(k, v) m. hm_insert k v m) kvs []"

text \<open>\<open>values_mut\<close> / in-place update of all values, as \<open>retain\<close> with a mutating closure does.\<close>

definition hm_map_values :: "('v \<Rightarrow> 'w) \<Rightarrow> ('k, 'v) hmap \<Rightarrow> ('k, 'w) hmap" where
  "hm_map_values f m = map (\<lambda>(k, v). (k, f v)) m"

lemma map_of_filter_distinct:
  "distinct (map fst m) \<Longrightarrow> map_of (filter (\<lambda>(k, v). P k v) m) j =
     (case map_of m j of None \<Rightarrow> None | Some v \<Rightarrow> if P j v then Some v else None)"
  by (induction m) (auto simp: map_of_eq_None_iff rev_image_eqI split: option.splits)

lemma distinct_filter_keys: "distinct (map fst m) \<Longrightarrow> distinct (map fst (filter P m))"
  by (simp add: distinct_map_filter)

lemmas hm_defs = hm_ok_def hm_get_def hm_insert_def hm_remove_def hm_retain_def

interpretation hm: finite_table "[]" hm_get hm_insert hm_remove hm_retain hm_ok
  by unfold_locales
    (simp_all add: hm_defs update_conv delete_conv map_of_filter_distinct
      distinct_update distinct_delete distinct_filter_keys)

lemmas hm_get_simps [simp] = hm.table_get
lemmas hm_ok_simps [simp, intro] = hm.table_ok

lemma hm_get_Nil [simp]: "hm_get [] k = None"
  by (simp add: hm_get_def)

lemma hm_get_map_values [simp]: "hm_get (hm_map_values f m) k = map_option f (hm_get m k)"
  by (simp add: hm_get_def hm_map_values_def map_of_map)

lemma hm_ok_map_values [simp]: "hm_ok (hm_map_values f m) = hm_ok m"
  by (simp add: hm_ok_def hm_map_values_def o_def case_prod_unfold)

lemma hm_eq_Nil_iff: "m = [] \<longleftrightarrow> (\<forall>k. hm_get m k = None)"
  by (cases m) (auto simp: hm_get_def)

lemma hm_ok_from_iter [simp]: "hm_ok (hm_from_iter kvs)"
proof -
  have "hm_ok m \<Longrightarrow> hm_ok (fold (\<lambda>(k, v) m. hm_insert k v m) kvs m)" for m :: "('a \<times> 'b) list"
    by (induction kvs arbitrary: m) auto
  then show ?thesis by (simp add: hm_from_iter_def)
qed

lemma hm_get_from_iter_map:
  "hm_get (hm_from_iter (map (\<lambda>k. (k, f k)) ks)) j = (if j \<in> set ks then Some (f j) else None)"
proof -
  have "hm_ok m \<Longrightarrow> hm_get (fold (\<lambda>(k, v) m. hm_insert k v m) (map (\<lambda>k. (k, f k)) ks) m) j =
    (if j \<in> set ks then Some (f j) else hm_get m j)" for m
    by (induction ks arbitrary: m) auto
  from this [of "[]"] show ?thesis by (simp add: hm_from_iter_def)
qed

lemma length_hm_from_iter: "length (hm_from_iter kvs) \<le> length kvs"
proof -
  have "length (fold (\<lambda>(k, v) m. hm_insert k v m) kvs m) \<le> length kvs + length m"
    for m :: "('a \<times> 'b) list"
  proof (induction kvs arbitrary: m)
    case (Cons kv kvs)
    have "length (AList.update k v m) \<le> Suc (length m)" for k :: 'a and v :: 'b
      by (induction m) auto
    with Cons.IH [of "AList.update (fst kv) (snd kv) m"] show ?case
      by (auto simp: hm_insert_def case_prod_unfold intro: order_trans)
  qed simp
  from this [of "[]"] show ?thesis by (simp add: hm_from_iter_def)
qed

lemma length_hm_remove: "length (hm_remove k m) \<le> length m"
  by (simp add: hm_remove_def length_delete_le)

lemma length_hm_retain: "length (hm_retain P m) \<le> length m"
  by (simp add: hm_retain_def)

text \<open>\<open>values()\<close>.\<close>

definition hm_values :: "('k, 'v) hmap \<Rightarrow> 'v list" where
  "hm_values m = map snd m"

lemma set_hm_values: "hm_ok m \<Longrightarrow> v \<in> set (hm_values m) \<longleftrightarrow> (\<exists>k. hm_get m k = Some v)"
  by (force simp: hm_values_def hm_get_def hm_ok_def)

subsection \<open>BTreeMap\<close>

type_synonym ('k, 'v) btmap = "('k \<times> 'v) list"

definition bt_ok :: "('k::linorder, 'v) btmap \<Rightarrow> bool" where
  "bt_ok m \<longleftrightarrow> sorted_wrt (<) (map fst m)"

definition bt_get :: "('k::linorder, 'v) btmap \<Rightarrow> 'k \<Rightarrow> 'v option" where
  "bt_get m k = map_of m k"

fun bt_insert :: "'k::linorder \<Rightarrow> 'v \<Rightarrow> ('k, 'v) btmap \<Rightarrow> ('k, 'v) btmap" where
  "bt_insert k v [] = [(k, v)]"
| "bt_insert k v ((j, w) # m) =
     (if k < j then (k, v) # (j, w) # m
      else if k = j then (k, v) # m
      else (j, w) # bt_insert k v m)"

definition bt_remove :: "'k::linorder \<Rightarrow> ('k, 'v) btmap \<Rightarrow> ('k, 'v) btmap" where
  "bt_remove k m = filter (\<lambda>(j, _). j \<noteq> k) m"

definition bt_retain :: "('k::linorder \<Rightarrow> 'v \<Rightarrow> bool) \<Rightarrow> ('k, 'v) btmap \<Rightarrow> ('k, 'v) btmap" where
  "bt_retain P m = filter (\<lambda>(k, v). P k v) m"

definition bt_keys :: "('k::linorder, 'v) btmap \<Rightarrow> 'k list" where
  "bt_keys m = map fst m"

text \<open>\<open>range(lo..)\<close>, \<open>range(..hi)\<close> and \<open>range((Excluded(k), Unbounded))\<close>.\<close>

definition bt_range_from :: "'k::linorder \<Rightarrow> ('k, 'v) btmap \<Rightarrow> ('k \<times> 'v) list" where
  "bt_range_from lo m = filter (\<lambda>(k, _). lo \<le> k) m"

definition bt_range_to :: "'k::linorder \<Rightarrow> ('k, 'v) btmap \<Rightarrow> ('k \<times> 'v) list" where
  "bt_range_to hi m = filter (\<lambda>(k, _). k < hi) m"

definition bt_range_above :: "'k::linorder \<Rightarrow> ('k, 'v) btmap \<Rightarrow> ('k \<times> 'v) list" where
  "bt_range_above k m = filter (\<lambda>(j, _). k < j) m"

lemma set_keys_bt_insert: "set (map fst (bt_insert k v m)) = insert k (set (map fst m))"
  by (induction k v m rule: bt_insert.induct) auto

lemma bt_insert_sorted: "sorted_wrt (<) (map fst m) \<Longrightarrow> sorted_wrt (<) (map fst (bt_insert k v m))"
proof (induction k v m rule: bt_insert.induct)
  case (2 k v j w m)
  have "\<forall>x \<in> set (map fst (bt_insert k v m)). j < x" if "j < k"
    using "2.prems" that unfolding set_keys_bt_insert by auto
  with 2 show ?case by fastforce
qed simp

lemma map_of_bt_insert:
  "sorted_wrt (<) (map fst m) \<Longrightarrow> map_of (bt_insert k v m) j = (if j = k then Some v else map_of m j)"
  by (induction m) auto

lemma sorted_keys_filter: "sorted_wrt (<) (map fst m) \<Longrightarrow> sorted_wrt (<) (map fst (filter P m))"
  by (induction m) auto

lemma bt_ok_distinct: "bt_ok m \<Longrightarrow> distinct (map fst m)"
  by (simp add: bt_ok_def strict_sorted_iff)

lemmas bt_defs = bt_ok_def bt_get_def bt_remove_def bt_retain_def bt_keys_def

interpretation bt: ordered_table "[]" bt_get bt_insert bt_remove bt_retain bt_ok bt_keys
proof unfold_locales
  fix m :: "('a \<times> 'b) list" and k j :: 'a and v :: 'b and P
  show "bt_get [] k = None" by (simp add: bt_get_def)
  show "bt_ok []" by (simp add: bt_ok_def)
  assume m: "bt_ok m"
  then have d: "distinct (map fst m)" by (rule bt_ok_distinct)
  show "bt_get (bt_insert k v m) j = (if j = k then Some v else bt_get m j)"
    using m by (simp add: bt_defs map_of_bt_insert)
  show "bt_get (bt_remove k m) j = (if j = k then None else bt_get m j)"
    using d map_of_filter_distinct [of m "\<lambda>j _. j \<noteq> k" j]
    by (simp add: bt_defs split: option.splits)
  show "bt_get (bt_retain P m) j =
      (case bt_get m j of None \<Rightarrow> None | Some v \<Rightarrow> if P j v then Some v else None)"
    using d by (simp add: bt_defs map_of_filter_distinct)
  show "bt_ok (bt_insert k v m)" using m by (simp add: bt_defs bt_insert_sorted)
  show "bt_ok (bt_remove k m)" using m by (simp add: bt_defs sorted_keys_filter)
  show "bt_ok (bt_retain P m)" using m by (simp add: bt_defs sorted_keys_filter)
  show "sorted_wrt (<) (bt_keys m)" using m by (simp add: bt_defs)
  show "k \<in> set (bt_keys m) \<longleftrightarrow> bt_get m k \<noteq> None"
    by (simp add: bt_defs map_of_eq_None_iff)
qed

lemmas bt_get_simps [simp] = bt.table_get
lemmas bt_ok_simps [simp, intro] = bt.table_ok

lemma bt_get_in_set: "bt_ok m \<Longrightarrow> (k, v) \<in> set m \<longleftrightarrow> bt_get m k = Some v"
  by (simp add: bt_get_def bt_ok_distinct)

end
