(* ===== verification/Net_Types.thy ===== *)
theory Net_Types
  imports Prelude "HOL-Library.List_Lexorder"
begin

text \<open>
  Keys, signatures and addresses. \<open>PublicKey\<close> is the fixed-size array \<open>[u8; 32]\<close> and
  \<open>Signature\<close> is \<open>[u8; 64]\<close> (\<open>src/udp/messages.rs\<close>); both are byte lists of that length,
  and keys carry the lexicographic order that a \<open>BTreeMap\<close> keyed by arrays uses.
  Addresses are those of \<open>std::net\<close>.
\<close>

subsection \<open>Public keys\<close>

typedef pubkey = "{bs :: bytes. length bs = 32}" morphisms key_bytes Abs_pubkey
  by (rule exI [of _ "replicate 32 0"]) simp

text \<open>The array that holds a byte list cut or padded to 32 bytes.\<close>

definition key_pad :: "bytes \<Rightarrow> pubkey" where
  "key_pad bs = Abs_pubkey (take 32 (bs @ replicate 32 0))"

text \<open>\<open><[u8; 32]>::try_from(slice)\<close>: the slice must have 32 bytes.\<close>

definition pubkey_of_bytes :: "bytes \<Rightarrow> pubkey option" where
  "pubkey_of_bytes bs = (if length bs = 32 then Some (key_pad bs) else None)"

text \<open>The key with the same byte 32 times; \<open>PublicKey::default()\<close> is all zeros.\<close>

definition key_fill :: "u8 \<Rightarrow> pubkey" where "key_fill b = key_pad (replicate 32 b)"

definition pubkey_default :: pubkey where "pubkey_default = key_fill 0"

lemma Abs_pubkey_key_bytes [code abstype]: "Abs_pubkey (key_bytes k) = k"
  by (rule key_bytes_inverse)

lemma key_bytes_pad [code abstract]: "key_bytes (key_pad bs) = take 32 (bs @ replicate 32 0)"
  by (simp add: key_pad_def Abs_pubkey_inverse)

lemma length_key_bytes [simp, wire_len]: "length (key_bytes k) = 32"
  using key_bytes [of k] by simp

lemma key_bytes_eq_iff [simp]: "key_bytes a = key_bytes b \<longleftrightarrow> a = b"
  by (rule key_bytes_inject)

lemma key_bytes_fill [simp]: "key_bytes (key_fill b) = replicate 32 b"
  by (simp add: key_fill_def key_bytes_pad)

lemma key_fill_eq_iff [simp]: "key_fill a = key_fill b \<longleftrightarrow> a = b"
proof -
  have "key_fill a = key_fill b \<longleftrightarrow> replicate 32 a = replicate 32 b"
    by (simp flip: key_bytes_eq_iff)
  then show ?thesis by simp
qed

lemma pubkey_of_bytes_Some: "pubkey_of_bytes bs = Some k \<longleftrightarrow> bs = key_bytes k"
  by (auto simp: pubkey_of_bytes_def key_bytes_pad simp flip: key_bytes_eq_iff)

lemma pubkey_of_key_bytes [simp]: "pubkey_of_bytes (key_bytes k) = Some k"
  by (simp add: pubkey_of_bytes_Some)

lemma pubkey_of_bytes_None: "pubkey_of_bytes bs = None \<longleftrightarrow> length bs \<noteq> 32"
  by (simp add: pubkey_of_bytes_def)

text \<open>\<open>slice.try_into().unwrap()\<close> at type \<open>PublicKey\<close>: a wrong length panics.\<close>

definition unwrap_pubkey :: "bytes \<Rightarrow> (pubkey, 'e) res" where
  "unwrap_pubkey bs = (case pubkey_of_bytes bs of Some k \<Rightarrow> Ok k | None \<Rightarrow> Panic)"

lemma unwrap_pubkey_eq_Ok [simp]: "unwrap_pubkey bs = Ok k \<longleftrightarrow> bs = key_bytes k"
  by (auto simp: unwrap_pubkey_def pubkey_of_bytes_Some split: option.splits)

lemma unwrap_pubkey_bytes [simp]: "unwrap_pubkey (key_bytes k) = Ok k"
  by simp

lemma unwrap_pubkey_ok [slice_simps]: "length bs = 32 \<Longrightarrow> unwrap_pubkey bs = Ok (key_pad bs)"
  by (simp add: unwrap_pubkey_def pubkey_of_bytes_def)

lemma key_bytes_pad_exact [simp]: "length bs = 32 \<Longrightarrow> key_bytes (key_pad bs) = bs"
  by (simp add: key_bytes_pad)

lemma key_pad_key_bytes [simp]: "key_pad (key_bytes k) = k"
  by (simp flip: key_bytes_eq_iff)

instantiation pubkey :: linorder
begin

definition less_eq_pubkey :: "pubkey \<Rightarrow> pubkey \<Rightarrow> bool" where
  "less_eq_pubkey a b \<longleftrightarrow> key_bytes a \<le> key_bytes b"

definition less_pubkey :: "pubkey \<Rightarrow> pubkey \<Rightarrow> bool" where
  "less_pubkey a b \<longleftrightarrow> key_bytes a < key_bytes b"

instance
  by standard (auto simp: less_eq_pubkey_def less_pubkey_def simp flip: key_bytes_eq_iff)

end

instantiation pubkey :: equal
begin

definition equal_pubkey :: "pubkey \<Rightarrow> pubkey \<Rightarrow> bool" where
  "equal_pubkey a b \<longleftrightarrow> key_bytes a = key_bytes b"

instance
  by standard (simp add: equal_pubkey_def)

end

lemma replicate_less_iff: "replicate (Suc n) a < replicate (Suc n) b \<longleftrightarrow> a < (b :: 'a::linorder)"
proof -
  have "a = b \<Longrightarrow> \<not> replicate n a < replicate n b" by simp
  then show ?thesis by auto
qed

lemma key_fill_less_iff [simp]: "key_fill a < key_fill b \<longleftrightarrow> a < b"
  using replicate_less_iff [of 31 a b] by (simp add: less_pubkey_def)

lemma key_fill_le_iff [simp]: "key_fill a \<le> key_fill b \<longleftrightarrow> a \<le> b"
  by (auto simp: le_less)

lemma pubkey_default_least: "pubkey_default \<le> k"
proof -
  have "replicate (length xs) (0::u8) \<le> xs" for xs
    by (induction xs) (auto simp: word_neq_0_conv)
  from this [of "key_bytes k"] show ?thesis
    by (simp add: pubkey_default_def less_eq_pubkey_def)
qed

subsection \<open>Signatures\<close>

typedef sig64 = "{bs :: bytes. length bs = 64}" morphisms sig_bytes Abs_sig64
  by (rule exI [of _ "replicate 64 0"]) simp

definition sig_pad :: "bytes \<Rightarrow> sig64" where
  "sig_pad bs = Abs_sig64 (take 64 (bs @ replicate 64 0))"

definition sig_of_bytes :: "bytes \<Rightarrow> sig64 option" where
  "sig_of_bytes bs = (if length bs = 64 then Some (sig_pad bs) else None)"

lemma Abs_sig64_sig_bytes [code abstype]: "Abs_sig64 (sig_bytes s) = s"
  by (rule sig_bytes_inverse)

lemma sig_bytes_pad [code abstract]: "sig_bytes (sig_pad bs) = take 64 (bs @ replicate 64 0)"
  by (simp add: sig_pad_def Abs_sig64_inverse)

lemma length_sig_bytes [simp, wire_len]: "length (sig_bytes s) = 64"
  using sig_bytes [of s] by simp

lemma sig_bytes_eq_iff [simp]: "sig_bytes a = sig_bytes b \<longleftrightarrow> a = b"
  by (rule sig_bytes_inject)

lemma sig_of_bytes_Some: "sig_of_bytes bs = Some s \<longleftrightarrow> bs = sig_bytes s"
  by (auto simp: sig_of_bytes_def sig_bytes_pad simp flip: sig_bytes_eq_iff)

lemma sig_of_sig_bytes [simp]: "sig_of_bytes (sig_bytes s) = Some s"
  by (simp add: sig_of_bytes_Some)

definition unwrap_sig :: "bytes \<Rightarrow> (sig64, 'e) res" where
  "unwrap_sig bs = (case sig_of_bytes bs of Some s \<Rightarrow> Ok s | None \<Rightarrow> Panic)"

lemma unwrap_sig_eq_Ok [simp]: "unwrap_sig bs = Ok s \<longleftrightarrow> bs = sig_bytes s"
  by (auto simp: unwrap_sig_def sig_of_bytes_Some split: option.splits)

lemma unwrap_sig_ok [slice_simps]: "length bs = 64 \<Longrightarrow> unwrap_sig bs = Ok (sig_pad bs)"
  by (simp add: unwrap_sig_def sig_of_bytes_def)

lemma sig_bytes_pad_exact [simp]: "length bs = 64 \<Longrightarrow> sig_bytes (sig_pad bs) = bs"
  by (simp add: sig_bytes_pad)

lemma sig_pad_sig_bytes [simp]: "sig_pad (sig_bytes s) = s"
  by (simp flip: sig_bytes_eq_iff)

instantiation sig64 :: equal
begin

definition equal_sig64 :: "sig64 \<Rightarrow> sig64 \<Rightarrow> bool" where
  "equal_sig64 a b \<longleftrightarrow> sig_bytes a = sig_bytes b"

instance
  by standard (simp add: equal_sig64_def)

end

subsection \<open>Addresses\<close>

text \<open>\<open>Ipv4Addr\<close>, ordered by its octets.\<close>

datatype ipv4 = Ipv4 u8 u8 u8 u8

fun octets :: "ipv4 \<Rightarrow> bytes" where
  "octets (Ipv4 a b c d) = [a, b, c, d]"

lemma length_octets [simp, wire_len]: "length (octets i) = 4"
  by (cases i) simp

lemma octets_eq_iff [simp]: "octets i = octets j \<longleftrightarrow> i = j"
  by (cases i; cases j) auto

instantiation ipv4 :: linorder
begin

definition less_eq_ipv4 :: "ipv4 \<Rightarrow> ipv4 \<Rightarrow> bool" where
  "less_eq_ipv4 a b \<longleftrightarrow> octets a \<le> octets b"

definition less_ipv4 :: "ipv4 \<Rightarrow> ipv4 \<Rightarrow> bool" where
  "less_ipv4 a b \<longleftrightarrow> octets a < octets b"

instance
  by standard (auto simp: less_eq_ipv4_def less_ipv4_def simp flip: octets_eq_iff)

end

text \<open>\<open>IpAddr\<close>: every IPv4 address is below every IPv6 address.\<close>

datatype ip_addr = IpV4 ipv4 | IpV6 "128 word"

instantiation ip_addr :: linorder
begin

fun less_eq_ip_addr :: "ip_addr \<Rightarrow> ip_addr \<Rightarrow> bool" where
  "less_eq_ip_addr (IpV4 a) (IpV4 b) = (a \<le> b)"
| "less_eq_ip_addr (IpV4 a) (IpV6 b) = True"
| "less_eq_ip_addr (IpV6 a) (IpV4 b) = False"
| "less_eq_ip_addr (IpV6 a) (IpV6 b) = (a \<le> b)"

definition less_ip_addr :: "ip_addr \<Rightarrow> ip_addr \<Rightarrow> bool" where
  "less_ip_addr a b \<longleftrightarrow> a \<le> b \<and> \<not> b \<le> a"

instance
proof
  fix x y z :: ip_addr
  show "x < y \<longleftrightarrow> x \<le> y \<and> \<not> y \<le> x" by (simp add: less_ip_addr_def)
  show "x \<le> x" by (cases x) simp_all
  show "x \<le> y \<Longrightarrow> y \<le> z \<Longrightarrow> x \<le> z" by (cases x; cases y; cases z) auto
  show "x \<le> y \<Longrightarrow> y \<le> x \<Longrightarrow> x = y" by (cases x; cases y) auto
  show "x \<le> y \<or> y \<le> x" by (cases x; cases y) auto
qed

end

fun is_ipv6 :: "ip_addr \<Rightarrow> bool" where
  "is_ipv6 (IpV6 _) = True"
| "is_ipv6 (IpV4 _) = False"

record sockaddr_v4 =
  v4_ip :: ipv4
  v4_port :: u16

record sockaddr_v6 =
  v6_ip :: "128 word"
  v6_port :: u16
  v6_flowinfo :: u32
  v6_scope_id :: u32

datatype socket_addr = SockV4 sockaddr_v4 | SockV6 sockaddr_v6

text \<open>An address as the wire format writes it: four octets and a little-endian port.\<close>

definition sock4 :: "ipv4 \<Rightarrow> u16 \<Rightarrow> sockaddr_v4" where
  "sock4 i p = \<lparr>v4_ip = i, v4_port = p\<rparr>"

lemma sock4_sel [simp]: "v4_ip (sock4 i p) = i" "v4_port (sock4 i p) = p"
  by (simp_all add: sock4_def)

lemma sock4_eta [simp]: "sock4 (v4_ip a) (v4_port a) = a"
  by (simp add: sock4_def)

lemma sock4_eq_iff [simp]: "sock4 i p = sock4 j q \<longleftrightarrow> i = j \<and> p = q"
  by (auto simp: sock4_def)

end
