(* ===== verification/Udp_Messages.thy ===== *)
theory Udp_Messages
  imports Net_Types
begin

text \<open>
  \<open>src/udp/messages.rs\<close>: the datagrams between a UDP client and the rendezvous server.
  Client to server: an outer frame with a version, a timestamp, an Ed25519 signature and
  the sender's key (\<open>ToServerRawMessage\<close>), around a signed payload
  (\<open>ToServerSignedMessage\<close>). Server to client: \<open>FromServerMessage\<close>, unsigned.
  The crates \<open>ed25519_dalek\<close> and \<open>chrono\<close> are parameters.
\<close>

definition PROTOCOL_VERSION :: u8 where "PROTOCOL_VERSION = 2"

datatype parse_error =
    InvalidMessageId u8
  | UnsupportedVersion (pe_cur: u8) (pe_remote: u8)
  | TooShort
  | InvalidTimestamp
  | InvalidContentFormat
  | InvalidSignature

subsection \<open>The crates the messages rely on\<close>

text \<open>
  \<open>chrono\<close>, for \<open>DateTime<Utc>\<close> values of type \<open>'dt\<close>: \<open>DateTime::from_timestamp_millis\<close>,
  \<open>DateTime::timestamp_millis\<close>, and the whole seconds of a difference,
  \<open>(a - b).num_seconds()\<close>.
\<close>

record 'dt chrono =
  from_timestamp_millis :: "i64 \<Rightarrow> 'dt option"
  timestamp_millis :: "'dt \<Rightarrow> i64"
  diff_seconds :: "'dt \<Rightarrow> 'dt \<Rightarrow> int"

text \<open>What the code relies on: a timestamp read from milliseconds has those milliseconds.\<close>

definition chrono_ok :: "'dt chrono \<Rightarrow> bool" where
  "chrono_ok ch \<longleftrightarrow> (\<forall>ms d. from_timestamp_millis ch ms = Some d \<longrightarrow> timestamp_millis ch d = ms)"

text \<open>
  \<open>ed25519_dalek\<close>, for signing keys of type \<open>'sk\<close>: whether \<open>VerifyingKey::from_bytes\<close>
  accepts a key, whether \<open>verify\<close> accepts a signature of a message, \<open>sign\<close>, and the
  public key of a signing key.
\<close>

record 'sk ed25519 =
  key_valid :: "pubkey \<Rightarrow> bool"
  sig_verifies :: "pubkey \<Rightarrow> bytes \<Rightarrow> sig64 \<Rightarrow> bool"
  sign_message :: "'sk \<Rightarrow> bytes \<Rightarrow> sig64"
  verifying_key :: "'sk \<Rightarrow> pubkey"

text \<open>What the code relies on: a key's own public key is accepted and verifies its signatures.\<close>

definition ed25519_ok :: "'sk ed25519 \<Rightarrow> bool" where
  "ed25519_ok ed \<longleftrightarrow> (\<forall>sk m. key_valid ed (verifying_key ed sk) \<and>
     sig_verifies ed (verifying_key ed sk) m (sign_message ed sk m))"

text \<open>
  Concrete instances, for evaluation: a \<open>DateTime\<close> is its \<open>i64\<close> of milliseconds, valid
  within chrono's documented range; a signing key is its own public key and a signature
  is the beginning of the message.
\<close>

definition chrono_ms :: "i64 chrono" where
  "chrono_ms = \<lparr>
     from_timestamp_millis = (\<lambda>ms. if - 8334601228800000 \<le> sint ms \<and> sint ms \<le> 8210266876799999 then Some ms else None),
     timestamp_millis = (\<lambda>d. d),
     diff_seconds = (\<lambda>a b. sgn (sint a - sint b) * (\<bar>sint a - sint b\<bar> div 1000)) \<rparr>"

definition ed25519_plain :: "pubkey ed25519" where
  "ed25519_plain = \<lparr>
     key_valid = (\<lambda>_. True),
     sig_verifies = (\<lambda>k m s. s = sig_pad (key_bytes k @ take 32 m)),
     sign_message = (\<lambda>sk m. sig_pad (key_bytes sk @ take 32 m)),
     verifying_key = (\<lambda>sk. sk) \<rparr>"

lemma chrono_ms_ok [simp]: "chrono_ok chrono_ms"
  by (simp add: chrono_ok_def chrono_ms_def)

lemma ed25519_plain_ok [simp]: "ed25519_ok ed25519_plain"
  by (simp add: ed25519_ok_def ed25519_plain_def)

subsection \<open>The outer frame\<close>

datatype 'dt to_server_raw =
  SignedMessage (raw_pubkey: pubkey) (raw_timestamp: 'dt) (raw_payload: bytes) (raw_signature: sig64)

definition raw_try_parse :: "'dt chrono \<Rightarrow> bytes \<Rightarrow> ('dt to_server_raw, parse_error) res" where
  "raw_try_parse ch bs =
    (if length bs < 3 then Err TooShort else
     bind_res (index_at bs 0) (\<lambda>msg_id.
     bind_res (index_at bs 1) (\<lambda>remote_ver.
     if remote_ver \<noteq> PROTOCOL_VERSION then Err (UnsupportedVersion PROTOCOL_VERSION remote_ver) else
     bind_res (slice_from bs 2) (\<lambda>bs.
     if msg_id = 1 then
       (if length bs < 8 + 64 + 32 then Err TooShort else
        bind_res (slice_to bs 8) (\<lambda>ts.
        bind_res (ok_or (from_timestamp_millis ch (le_word ts)) InvalidTimestamp) (\<lambda>timestamp.
        bind_res (slice_from bs 8) (\<lambda>bs.
        bind_res (bind_res (slice_to bs 64) unwrap_sig) (\<lambda>signature.
        bind_res (slice_from bs 64) (\<lambda>bs.
        bind_res (bind_res (slice_to bs 32) unwrap_pubkey) (\<lambda>pubkey.
        bind_res (slice_from bs 32) (\<lambda>payload.
        Ok (SignedMessage pubkey timestamp payload signature)))))))))
     else Err (InvalidMessageId msg_id)))))"

fun raw_to_bytes :: "'dt chrono \<Rightarrow> 'dt to_server_raw \<Rightarrow> bytes" where
  "raw_to_bytes ch (SignedMessage pubkey timestamp payload signature) =
     [1, PROTOCOL_VERSION] @ le_bytes 8 (timestamp_millis ch timestamp)
       @ sig_bytes signature @ key_bytes pubkey @ payload"

subsection \<open>The signed payload\<close>

datatype to_server_signed =
  ConnectionRequest (cr_peer_pubkeys: "pubkey list") (cr_session_id: u32)

text \<open>The loop that reads \<open>n\<close> keys of 32 bytes.\<close>

fun read_pubkeys :: "nat \<Rightarrow> bytes \<Rightarrow> (pubkey list, parse_error) res" where
  "read_pubkeys 0 payload = Ok []"
| "read_pubkeys (Suc n) payload =
     bind_res (bind_res (slice_to payload 32) unwrap_pubkey) (\<lambda>k.
     bind_res (slice_from payload 32) (\<lambda>payload.
     bind_res (read_pubkeys n payload) (\<lambda>ks. Ok (k # ks))))"

definition payload_try_parse :: "bytes \<Rightarrow> (to_server_signed, parse_error) res" where
  "payload_try_parse payload =
    (if length payload = 0 then Err TooShort else
     bind_res (index_at payload 0) (\<lambda>msg_id.
     bind_res (slice_from payload 1) (\<lambda>payload.
     if msg_id = 1 then
       (if length payload < 4 + 1 then Err InvalidContentFormat else
        bind_res (slice_to payload 4) (\<lambda>sid.
        bind_res (slice_from payload 4) (\<lambda>payload.
        bind_res (index_at payload 0) (\<lambda>n.
        if unat n > 10 \<or> unat n = 0 then Err InvalidContentFormat else
        bind_res (slice_from payload 1) (\<lambda>payload.
        if length payload < 32 * unat n then Err InvalidContentFormat else
        bind_res (read_pubkeys (unat n) payload) (\<lambda>peer_pubkeys.
        Ok (ConnectionRequest peer_pubkeys (le_word sid))))))))
     else Err (InvalidMessageId msg_id))))"

text \<open>The bytes the signature covers: the timestamp and the payload.\<close>

definition signed_part :: "'dt chrono \<Rightarrow> 'dt \<Rightarrow> bytes \<Rightarrow> bytes" where
  "signed_part ch timestamp payload = le_bytes 8 (timestamp_millis ch timestamp) @ payload"

definition signed_try_parse ::
  "'dt chrono \<Rightarrow> 'sk ed25519 \<Rightarrow> bytes \<Rightarrow> (to_server_signed \<times> pubkey \<times> 'dt, parse_error) res" where
  "signed_try_parse ch ed bs =
    bind_res (raw_try_parse ch bs) (\<lambda>raw.
    case raw of SignedMessage pubkey timestamp payload signature \<Rightarrow>
      if \<not> key_valid ed pubkey then Err InvalidContentFormat
      else if \<not> sig_verifies ed pubkey (signed_part ch timestamp payload) signature then Err InvalidSignature
      else bind_res (payload_try_parse payload) (\<lambda>msg. Ok (msg, pubkey, timestamp)))"

definition payload_to_bytes :: "to_server_signed \<Rightarrow> (bytes, parse_error) res" where
  "payload_to_bytes m = (case m of ConnectionRequest peer_pubkeys session_id \<Rightarrow>
     if length peer_pubkeys > 10 \<or> peer_pubkeys = [] then Panic
     else Ok ([1] @ le_bytes 4 session_id @ [word_of_nat (length peer_pubkeys)]
              @ concat (map key_bytes peer_pubkeys)))"

text \<open>\<open>to_bytes\<close>; the wall clock \<open>Utc::now()\<close> is the argument \<open>utc_now\<close>.\<close>

definition signed_to_bytes ::
  "'dt chrono \<Rightarrow> 'sk ed25519 \<Rightarrow> 'dt \<Rightarrow> 'sk \<Rightarrow> to_server_signed \<Rightarrow> (bytes, parse_error) res" where
  "signed_to_bytes ch ed utc_now key m =
    bind_res (payload_to_bytes m) (\<lambda>payload.
    Ok (raw_to_bytes ch (SignedMessage (verifying_key ed key) utc_now payload
          (sign_message ed key (signed_part ch utc_now payload)))))"

subsection \<open>Messages from the server\<close>

datatype from_server =
    InitiateConnectionRequest (fs_peer_pubkey: pubkey) (fs_peer_address: sockaddr_v4)
      (fs_remote_session_id: u32) (fs_is_listener: bool)
  | LostConnectionRequest (fs_peer_pubkey: pubkey) (fs_peer_address: sockaddr_v4)

text \<open>The address block both messages share: four octets and a port.\<close>

definition read_addr :: "bytes \<Rightarrow> (sockaddr_v4, parse_error) res" where
  "read_addr bs =
    bind_res (index_at bs 0) (\<lambda>a. bind_res (index_at bs 1) (\<lambda>b.
    bind_res (index_at bs 2) (\<lambda>c. bind_res (index_at bs 3) (\<lambda>d.
    bind_res (slice_range bs 4 6) (\<lambda>port.
    Ok (sock4 (Ipv4 a b c d) (le_word port)))))))"

definition from_server_try_parse :: "bytes \<Rightarrow> (from_server, parse_error) res" where
  "from_server_try_parse bs =
    (if length bs = 0 then Err TooShort else
     bind_res (index_at bs 0) (\<lambda>msg_id.
     bind_res (slice_from bs 1) (\<lambda>bs.
     if msg_id = 1 then
       (if length bs < 32 + 4 + 2 + 4 + 1 then Err TooShort else
        bind_res (bind_res (slice_to bs 32) unwrap_pubkey) (\<lambda>pubkey.
        bind_res (slice_from bs 32) (\<lambda>bs.
        bind_res (read_addr bs) (\<lambda>addr.
        bind_res (slice_from bs 6) (\<lambda>bs.
        bind_res (slice_to bs 4) (\<lambda>sid.
        bind_res (slice_from bs 4) (\<lambda>bs.
        bind_res (index_at bs 0) (\<lambda>l.
        Ok (InitiateConnectionRequest pubkey addr (le_word sid) (l = 1))))))))))
     else if msg_id = 2 then
       (if length bs < 32 + 4 + 2 then Err TooShort else
        bind_res (bind_res (slice_to bs 32) unwrap_pubkey) (\<lambda>pubkey.
        bind_res (slice_from bs 32) (\<lambda>bs.
        bind_res (read_addr bs) (\<lambda>addr.
        Ok (LostConnectionRequest pubkey addr)))))
     else Err (InvalidMessageId msg_id))))"

definition addr_bytes :: "sockaddr_v4 \<Rightarrow> bytes" where
  "addr_bytes a = octets (v4_ip a) @ le_bytes 2 (v4_port a)"

fun from_server_to_bytes :: "from_server \<Rightarrow> bytes" where
  "from_server_to_bytes (InitiateConnectionRequest peer_pubkey peer_address remote_session_id is_listener) =
     [1] @ key_bytes peer_pubkey @ addr_bytes peer_address @ le_bytes 4 remote_session_id
       @ [of_bool is_listener]"
| "from_server_to_bytes (LostConnectionRequest peer_pubkey peer_address) =
     [2] @ key_bytes peer_pubkey @ addr_bytes peer_address"

subsection \<open>Parsers as conditions on offsets\<close>

text \<open>
  The step-by-step parsers agree with one that reads fixed offsets; every slice of the
  source is in bounds, so no step panics.
\<close>

lemma raw_try_parse_flat:
  "raw_try_parse ch bs =
    (if length bs < 3 then Err TooShort
     else if bs ! 1 \<noteq> PROTOCOL_VERSION then Err (UnsupportedVersion PROTOCOL_VERSION (bs ! 1))
     else if bs ! 0 \<noteq> 1 then Err (InvalidMessageId (bs ! 0))
     else if length bs < 106 then Err TooShort
     else case from_timestamp_millis ch (le_word (take 8 (drop 2 bs))) of
         None \<Rightarrow> Err InvalidTimestamp
       | Some t \<Rightarrow> Ok (SignedMessage (key_pad (take 32 (drop 74 bs))) t (drop 106 bs)
                      (sig_pad (take 64 (drop 10 bs)))))"
proof (cases "length bs < 3")
  case True
  then show ?thesis by (simp add: raw_try_parse_def)
next
  case False
  then have l: "bs \<noteq> []" "Suc 0 < length bs" "2 \<le> length bs" by auto
  show ?thesis
  proof (cases "length bs < 106")
    case True
    with l have "length bs - 2 < 104" by linarith
    with True False l show ?thesis by (simp add: raw_try_parse_def slice_simps)
  next
    case long: False
    then have n: "\<not> length bs - 2 < 104" by linarith
    show ?thesis
    proof (cases "from_timestamp_millis ch (le_word (take 8 (drop 2 bs)))")
      case None
      with False l long n show ?thesis by (simp add: raw_try_parse_def slice_simps)
    next
      case (Some t)
      with False l long n show ?thesis by (simp add: raw_try_parse_def slice_simps)
    qed
  qed
qed

lemma raw_try_parse_not_Panic: "raw_try_parse ch bs \<noteq> Panic"
  by (simp add: raw_try_parse_flat split: option.split)

lemma raw_try_parse_to_bytes:
  assumes "from_timestamp_millis ch (timestamp_millis ch t) = Some d"
  shows "raw_try_parse ch (raw_to_bytes ch (SignedMessage k t payload sig)) =
    Ok (SignedMessage k d payload sig)"
  using assms by (simp add: raw_try_parse_flat wire_len nth_append)

lemma raw_try_parse_eq_Ok:
  assumes "chrono_ok ch"
  shows "raw_try_parse ch bs = Ok (SignedMessage k t payload sig) \<longleftrightarrow>
    bs = raw_to_bytes ch (SignedMessage k t payload sig)
    \<and> from_timestamp_millis ch (timestamp_millis ch t) = Some t"
proof
  assume ok: "raw_try_parse ch bs = Ok (SignedMessage k t payload sig)"
  then have len: "106 \<le> length bs" and b: "bs ! 0 = 1" "bs ! 1 = PROTOCOL_VERSION"
    and t: "from_timestamp_millis ch (le_word (take 8 (drop 2 bs))) = Some t"
    and parts: "k = key_pad (take 32 (drop 74 bs))" "payload = drop 106 bs"
      "sig = sig_pad (take 64 (drop 10 bs))"
    by (simp_all add: raw_try_parse_flat split: if_splits option.splits)
  from assms t have ms: "timestamp_millis ch t = le_word (take 8 (drop 2 bs))"
    by (auto simp: chrono_ok_def)
  have "bs = take 2 bs @ drop 2 bs" by simp
  also have "drop 2 bs = take 8 (drop 2 bs) @ drop 10 bs"
    using drop_take_step [of 2 bs 8] by simp
  also have "drop 10 bs = take 64 (drop 10 bs) @ drop 74 bs"
    using drop_take_step [of 10 bs 64] by simp
  also have "drop 74 bs = take 32 (drop 74 bs) @ drop 106 bs"
    using drop_take_step [of 74 bs 32] by simp
  finally have "bs = take 2 bs @ take 8 (drop 2 bs) @ take 64 (drop 10 bs)
    @ take 32 (drop 74 bs) @ drop 106 bs" .
  moreover have "take 2 bs = [1, PROTOCOL_VERSION]"
    using len b by (cases bs; cases "tl bs") auto
  ultimately show "bs = raw_to_bytes ch (SignedMessage k t payload sig)
      \<and> from_timestamp_millis ch (timestamp_millis ch t) = Some t"
    using len t by (simp add: parts ms le_bytes_le_word)
qed (use raw_try_parse_to_bytes in auto)

lemma read_pubkeys_concat:
  "read_pubkeys (length ks) (concat (map key_bytes ks) @ rest) = Ok ks"
  by (induction ks) (simp_all add: slice_simps)

lemma read_pubkeys_Ok:
  "32 * n \<le> length bs \<Longrightarrow> \<exists>ks. read_pubkeys n bs = Ok ks \<and> length ks = n"
proof (induction n arbitrary: bs)
  case (Suc n)
  then have "32 * n \<le> length (drop 32 bs)" by simp
  from Suc.IH [OF this] Suc.prems show ?case by (auto simp: slice_simps)
qed simp

lemma read_pubkeys_length: "read_pubkeys n bs = Ok ks \<Longrightarrow> length ks = n"
  by (induction n arbitrary: bs ks) auto

lemma payload_try_parse_not_Panic: "payload_try_parse payload \<noteq> Panic"
proof (cases payload)
  case Nil
  then show ?thesis by (simp add: payload_try_parse_def)
next
  case (Cons msg_id rest)
  have "bind_res (read_pubkeys n bs) (\<lambda>ks. Ok (f ks)) \<noteq> Panic" if "32 * n \<le> length bs"
    for n and bs :: bytes and f :: "pubkey list \<Rightarrow> to_server_signed"
    using read_pubkeys_Ok [OF that] by auto
  then show ?thesis
    by (cases "length rest < 5")
      (simp_all add: payload_try_parse_def slice_simps Cons not_less)
qed

lemma payload_try_parse_bounds:
  "payload_try_parse payload = Ok (ConnectionRequest ks sid) \<Longrightarrow> 0 < length ks \<and> length ks \<le> 10"
  by (auto simp: payload_try_parse_def split: if_splits dest: read_pubkeys_length)

lemma payload_try_parse_to_bytes:
  assumes "payload_to_bytes m = Ok payload"
  shows "payload_try_parse (payload @ rest) = Ok m"
proof (cases m)
  case (ConnectionRequest ks sid)
  with assms have n: "0 < length ks" "length ks \<le> 10"
    and p: "payload = [1] @ le_bytes 4 sid @ [word_of_nat (length ks)] @ concat (map key_bytes ks)"
    by (auto simp: payload_to_bytes_def split: if_splits)
  from n have u: "unat (word_of_nat (length ks) :: u8) = length ks"
    by (simp add: unat_of_nat)
  have len: "length (concat (map key_bytes ks)) = 32 * length ks"
    by (induction ks) simp_all
  from n show ?thesis
    by (simp add: ConnectionRequest p payload_try_parse_def slice_simps u len read_pubkeys_concat)
qed

subsection \<open>Codecs\<close>

text \<open>
  The contract between an encoder and the parser on the other side: the parser recovers
  an encoded message whatever follows it in the datagram, and no datagram panics it.
\<close>

locale datagram_codec =
  fixes enc :: "'m \<Rightarrow> (bytes, 'e) res"
    and dec :: "bytes \<Rightarrow> ('m, 'e) res"
  assumes dec_enc: "enc m = Ok bs \<Longrightarrow> dec (bs @ rest) = Ok m"
    and dec_safe: "dec bs \<noteq> Panic"
begin

lemma dec_enc_exact: "enc m = Ok bs \<Longrightarrow> dec bs = Ok m"
  using dec_enc [of m bs "[]"] by simp

lemma enc_prefix_free: "enc m = Ok bs \<Longrightarrow> enc m' = Ok (bs @ rest) \<Longrightarrow> m = m'"
  using dec_enc [of m bs rest] dec_enc_exact [of m' "bs @ rest"] by simp

lemma enc_inj: "enc m = Ok bs \<Longrightarrow> enc m' = Ok bs \<Longrightarrow> m = m'"
  using enc_prefix_free [of m bs m' "[]"] by simp

lemma dec_decides: "(\<exists>m. dec bs = Ok m) \<or> (\<exists>e. dec bs = Err e)"
  using dec_safe [of bs] by (cases "dec bs") auto

end

interpretation payload_codec: datagram_codec payload_to_bytes payload_try_parse
  by unfold_locales (auto intro: payload_try_parse_to_bytes simp: payload_try_parse_not_Panic)

subsection \<open>Server messages\<close>

lemma read_addr_ok [slice_simps]:
  "6 \<le> length bs \<Longrightarrow> read_addr bs =
     Ok (sock4 (Ipv4 (bs ! 0) (bs ! 1) (bs ! 2) (bs ! 3)) (le_word (take 2 (drop 4 bs))))"
proof -
  assume "6 \<le> length bs"
  then have "0 < length bs" "1 < length bs" "2 < length bs" "3 < length bs" "6 \<le> length bs" by linarith+
  then show ?thesis unfolding read_addr_def by (simp add: index_at_def slice_range_def)
qed

lemma length_addr_bytes [simp, wire_len]: "length (addr_bytes a) = 6"
  by (simp add: addr_bytes_def)

lemma read_addr_bytes: "read_addr (addr_bytes a @ rest) = Ok a"
  by (cases "v4_ip a") (simp add: slice_simps, simp add: addr_bytes_def flip: sock4_eta)

lemma read_addr_eq_Ok: "read_addr bs = Ok a \<longleftrightarrow> 6 \<le> length bs \<and> take 6 bs = addr_bytes a"
proof
  assume ok: "read_addr bs = Ok a"
  then have len: "6 \<le> length bs"
    by (auto simp: read_addr_def slice_range_def split: if_splits)
  have nth: "i < 4 \<Longrightarrow> take 4 bs ! i = bs ! i" for i by simp
  have "take 4 bs = [bs ! 0, bs ! 1, bs ! 2, bs ! 3]"
    using len by (intro nth_equalityI) (auto simp: less_Suc_eq numeral_eq_Suc)
  moreover have "take 6 bs = take 4 bs @ take 2 (drop 4 bs)"
    using take_add [of 4 2 bs] by simp
  ultimately show "6 \<le> length bs \<and> take 6 bs = addr_bytes a"
    using ok len by (auto simp: slice_simps addr_bytes_def le_bytes_le_word)
next
  assume "6 \<le> length bs \<and> take 6 bs = addr_bytes a"
  then have "bs = addr_bytes a @ drop 6 bs" by (metis append_take_drop_id)
  then show "read_addr bs = Ok a" by (metis read_addr_bytes)
qed

lemma from_server_try_parse_Cons:
  "from_server_try_parse (msg_id # b) =
    (if msg_id = 1 then
       (if length b < 43 then Err TooShort
        else bind_res (read_addr (drop 32 b)) (\<lambda>addr.
          Ok (InitiateConnectionRequest (key_pad (take 32 b)) addr
                (le_word (take 4 (drop 38 b))) (b ! 42 = 1))))
     else if msg_id = 2 then
       (if length b < 38 then Err TooShort
        else bind_res (read_addr (drop 32 b)) (\<lambda>addr. Ok (LostConnectionRequest (key_pad (take 32 b)) addr)))
     else Err (InvalidMessageId msg_id))"
proof (cases "length b < 43")
  case True
  then show ?thesis
    by (cases "length b < 38") (simp_all add: from_server_try_parse_def index_at_def slice_from_def
      slice_to_def unwrap_pubkey_ok)
next
  case False
  then have "4 \<le> length b - 38" "6 \<le> length b - 32" "\<not> length b < 38" "38 < length b - 4" by linarith+
  with False show ?thesis
    by (simp add: from_server_try_parse_def index_at_def slice_from_def slice_to_def unwrap_pubkey_ok)
qed

lemma from_server_try_parse_to_bytes: "from_server_try_parse (from_server_to_bytes m @ rest) = Ok m"
  by (cases m) (auto simp: from_server_try_parse_Cons read_addr_bytes nth_append wire_len)

lemma from_server_try_parse_not_Panic: "from_server_try_parse bs \<noteq> Panic"
proof (cases bs)
  case Nil
  then show ?thesis by (simp add: from_server_try_parse_def)
next
  case (Cons msg_id b)
  then show ?thesis
    by (auto simp: from_server_try_parse_Cons slice_simps bind_res_eq_Panic)
qed

interpretation server_codec: datagram_codec "\<lambda>m. Ok (from_server_to_bytes m)" from_server_try_parse
  by unfold_locales (auto simp: from_server_try_parse_to_bytes from_server_try_parse_not_Panic)

lemma length_from_server_to_bytes:
  "length (from_server_to_bytes m) = (case m of InitiateConnectionRequest _ _ _ _ \<Rightarrow> 44 | LostConnectionRequest _ _ \<Rightarrow> 39)"
  by (cases m) (simp_all add: wire_len)

subsection \<open>Signed messages\<close>

lemma signed_try_parse_not_Panic: "signed_try_parse ch ed bs \<noteq> Panic"
  using raw_try_parse_not_Panic [of ch bs] payload_codec.dec_safe
  by (auto simp: signed_try_parse_def bind_res_eq_Panic split: to_server_raw.splits if_splits)

lemma signed_try_parse_raw:
  "signed_try_parse ch ed bs = Ok (msg, k, t) \<longleftrightarrow>
    (\<exists>payload sig. raw_try_parse ch bs = Ok (SignedMessage k t payload sig)
       \<and> key_valid ed k \<and> sig_verifies ed k (signed_part ch t payload) sig
       \<and> payload_try_parse payload = Ok msg)"
proof (cases "raw_try_parse ch bs")
  case (Ok raw)
  then show ?thesis by (cases raw) (auto simp: signed_try_parse_def)
qed (auto simp: signed_try_parse_def)

lemma signed_try_parse_eq_Ok:
  assumes "chrono_ok ch"
  shows "signed_try_parse ch ed bs = Ok (msg, k, t) \<longleftrightarrow>
    (\<exists>payload sig. bs = raw_to_bytes ch (SignedMessage k t payload sig)
       \<and> from_timestamp_millis ch (timestamp_millis ch t) = Some t
       \<and> key_valid ed k \<and> sig_verifies ed k (signed_part ch t payload) sig
       \<and> payload_try_parse payload = Ok msg)"
  by (simp add: signed_try_parse_raw raw_try_parse_eq_Ok [OF assms] conj_assoc del: raw_to_bytes.simps)

lemma payload_to_bytes_eq_Ok:
  "payload_to_bytes (ConnectionRequest ks sid) = Ok bs \<longleftrightarrow> 0 < length ks \<and> length ks \<le> 10 \<and>
     bs = [1] @ le_bytes 4 sid @ [word_of_nat (length ks)] @ concat (map key_bytes ks)"
  by (auto simp: payload_to_bytes_def)

lemma length_concat_keys [simp, wire_len]: "length (concat (map key_bytes ks)) = 32 * length ks"
  by (induction ks) simp_all

lemma length_signed_to_bytes:
  "signed_to_bytes ch ed now key (ConnectionRequest ks sid) = Ok bs \<Longrightarrow> length bs = 112 + 32 * length ks"
  by (auto simp: signed_to_bytes_def payload_to_bytes_eq_Ok)

lemma signed_try_parse_length:
  assumes "signed_try_parse ch ed bs = Ok (msg, k, t)"
  shows "112 + 32 * length (cr_peer_pubkeys msg) \<le> length bs"
proof -
  from assms obtain payload sig where raw: "raw_try_parse ch bs = Ok (SignedMessage k t payload sig)"
    and p: "payload_try_parse payload = Ok msg"
    by (auto simp: signed_try_parse_raw)
  from raw have "106 \<le> length bs" "length payload = length bs - 106"
    by (auto simp: raw_try_parse_flat split: if_splits option.splits)
  moreover from p have "6 + 32 * length (cr_peer_pubkeys msg) \<le> length payload"
    by (auto simp: payload_try_parse_def slice_from_def not_less split: if_splits
        dest!: read_pubkeys_length)
  ultimately show ?thesis by linarith
qed

text \<open>A concrete datagram: key 1 asks for key 2, in session 9, signed at 5 ms.\<close>

definition ex_payload :: bytes where
  "ex_payload = [1, 9, 0, 0, 0, 1] @ replicate 32 2"

definition ex_signature :: sig64 where
  "ex_signature = sig_pad (replicate 32 1 @ [5, 0, 0, 0, 0, 0, 0, 0, 1, 9, 0, 0, 0, 1] @ replicate 18 2)"

definition ex_datagram :: bytes where
  "ex_datagram = raw_to_bytes chrono_ms (SignedMessage (key_fill 1) 5 ex_payload ex_signature)"

lemma ex_datagram_valid:
  "from_timestamp_millis chrono_ms (timestamp_millis chrono_ms 5) = Some 5"
  "key_valid ed25519_plain (key_fill 1)"
  "sig_verifies ed25519_plain (key_fill 1) (signed_part chrono_ms 5 ex_payload) ex_signature"
  "payload_try_parse ex_payload = Ok (ConnectionRequest [key_fill 2] 9)"
proof -
  show "from_timestamp_millis chrono_ms (timestamp_millis chrono_ms 5) = Some 5"
    "key_valid ed25519_plain (key_fill 1)"
    by (simp_all add: chrono_ms_def ed25519_plain_def)
  show "sig_verifies ed25519_plain (key_fill 1) (signed_part chrono_ms 5 ex_payload) ex_signature"
    by (simp add: chrono_ms_def ed25519_plain_def signed_part_def le_bytes_unfold ex_payload_def
        ex_signature_def)
  have "payload_to_bytes (ConnectionRequest [key_fill 2] 9) = Ok ex_payload"
    by (simp add: payload_to_bytes_eq_Ok le_bytes_unfold ex_payload_def)
  then show "payload_try_parse ex_payload = Ok (ConnectionRequest [key_fill 2] 9)"
    by (rule payload_codec.dec_enc_exact)
qed

lemma ex_datagram_parses:
  "signed_try_parse chrono_ms ed25519_plain ex_datagram = Ok (ConnectionRequest [key_fill 2] 9, key_fill 1, 5)"
  unfolding signed_try_parse_eq_Ok [OF chrono_ms_ok] ex_datagram_def
  using ex_datagram_valid by (intro exI [of _ ex_payload] exI [of _ ex_signature]) simp

lemma ex_datagram_age: "diff_seconds chrono_ms 7 5 = 0"
  by (simp add: chrono_ms_def)

text \<open>The frame of an encoded message, as the server reads it.\<close>

lemma signed_to_bytes_frame:
  assumes "chrono_ok ch" and "from_timestamp_millis ch (timestamp_millis ch now) = Some d"
    and "signed_to_bytes ch ed now key m = Ok datagram"
  obtains payload where "payload_to_bytes m = Ok payload"
    and "raw_try_parse ch datagram =
      Ok (SignedMessage (verifying_key ed key) d payload (sign_message ed key (signed_part ch d payload)))"
proof -
  let ?k = "verifying_key ed key"
  from assms(3) obtain payload where p: "payload_to_bytes m = Ok payload"
    and dg: "datagram = raw_to_bytes ch (SignedMessage ?k now payload
               (sign_message ed key (signed_part ch now payload)))"
    by (auto simp: signed_to_bytes_def)
  have "timestamp_millis ch d = timestamp_millis ch now" using assms(1,2) by (auto simp: chrono_ok_def)
  then have "signed_part ch d payload = signed_part ch now payload" by (simp add: signed_part_def)
  with that p raw_try_parse_to_bytes [OF assms(2), of ?k payload] dg show ?thesis by metis
qed

subsection \<open>Properties of the wire format\<close>

lemma signed_message_parses:
  assumes "chrono_ok ch" and "ed25519_ok ed"
    and "from_timestamp_millis ch (timestamp_millis ch now) = Some d"
    and "signed_to_bytes ch ed now key m = Ok datagram"
  shows "signed_try_parse ch ed datagram = Ok (m, verifying_key ed key, d)"
proof -
  from signed_to_bytes_frame [OF assms(1,3,4)] obtain payload where p: "payload_to_bytes m = Ok payload"
    and raw: "raw_try_parse ch datagram =
      Ok (SignedMessage (verifying_key ed key) d payload (sign_message ed key (signed_part ch d payload)))" .
  from raw payload_codec.dec_enc_exact [OF p] assms(2) show ?thesis
    by (simp add: signed_try_parse_raw ed25519_ok_def)
qed

text \<open>No datagram makes a parser panic: every slice, index and \<open>try_into().unwrap()\<close> of
  the parsers on both sides is in bounds for every input.\<close>

lemma parsers_never_panic:
  "signed_try_parse ch ed datagram \<noteq> Panic \<and> from_server_try_parse reply \<noteq> Panic"
  using signed_try_parse_not_Panic server_codec.dec_safe by blast

text \<open>C16: What a client signs and sends is what the server reads: the parsed message, the
  sender's key, and the timestamp to the millisecond.\<close>

theorem signed_roundtrip:
  assumes "chrono_ok ch" and "ed25519_ok ed"
    and "from_timestamp_millis ch (timestamp_millis ch now) = Some d"
    and "signed_to_bytes ch ed now key m = Ok datagram"
  shows "signed_try_parse ch ed datagram = Ok (m, verifying_key ed key, d)"
  using assms by (rule signed_message_parses)

theorem signed_roundtrip_witness:
  "\<exists>datagram. signed_to_bytes chrono_ms ed25519_plain 1700000000000 (key_fill 1)
       (ConnectionRequest [key_fill 2, key_fill 3] 7) = Ok datagram \<and>
     signed_try_parse chrono_ms ed25519_plain datagram =
       Ok (ConnectionRequest [key_fill 2, key_fill 3] 7, key_fill 1, 1700000000000)"
proof -
  let ?m = "ConnectionRequest [key_fill 2, key_fill 3] 7"
  obtain datagram where
    e: "signed_to_bytes chrono_ms ed25519_plain 1700000000000 (key_fill 1) ?m = Ok datagram"
    by (simp add: signed_to_bytes_def payload_to_bytes_def)
  have t: "from_timestamp_millis chrono_ms (timestamp_millis chrono_ms 1700000000000) = Some 1700000000000"
    by (simp add: chrono_ms_def)
  have "verifying_key ed25519_plain (key_fill 1) = key_fill 1"
    by (simp add: ed25519_plain_def)
  with e signed_roundtrip [OF chrono_ms_ok ed25519_plain_ok t e] show ?thesis by auto
qed

text \<open>C25: The server accepts a datagram exactly when it is a version 2 frame whose key is valid,
  whose signature by that key covers the timestamp and the payload, and whose payload is a
  connection request; an accepted request names one to ten peers. The source address is not
  part of what is signed.\<close>

theorem signed_accepts_exactly:
  assumes "chrono_ok ch"
  shows "signed_try_parse ch ed datagram = Ok (ConnectionRequest ks sid, k, t) \<longleftrightarrow>
    (\<exists>payload sig. datagram = raw_to_bytes ch (SignedMessage k t payload sig)
       \<and> from_timestamp_millis ch (timestamp_millis ch t) = Some t
       \<and> key_valid ed k \<and> sig_verifies ed k (signed_part ch t payload) sig
       \<and> payload_try_parse payload = Ok (ConnectionRequest ks sid)
       \<and> 0 < length ks \<and> length ks \<le> 10)"
  using payload_try_parse_bounds [of _ ks sid]
  by (simp add: signed_try_parse_eq_Ok [OF assms] del: raw_to_bytes.simps) blast

theorem signed_accepts_exactly_witness:
  "signed_try_parse chrono_ms ed25519_plain ex_datagram = Ok (ConnectionRequest [key_fill 2] 9, key_fill 1, 5)"
  unfolding signed_accepts_exactly [OF chrono_ms_ok] ex_datagram_def
  using ex_datagram_valid by (intro exI [of _ ex_payload] exI [of _ ex_signature]) simp

text \<open>Encoding a request panics exactly when it names no peer or more than ten; otherwise the
  datagram has 112 bytes and 32 for each peer, at most 432, so it fits the server's buffer of
  2000 bytes.\<close>

lemma signed_to_bytes_outcome:
  "if 0 < length ks \<and> length ks \<le> 10
   then \<exists>datagram. signed_to_bytes ch ed now key (ConnectionRequest ks sid) = Ok datagram
          \<and> length datagram = 112 + 32 * length ks \<and> length datagram \<le> 432
   else signed_to_bytes ch ed now key (ConnectionRequest ks sid) = Panic"
  by (auto simp: signed_to_bytes_def payload_to_bytes_def)

text \<open>C26: A client reads back every message the server sends, whatever bytes follow it, and two
  different messages never have the same bytes.\<close>

theorem from_server_roundtrip:
  "from_server_try_parse (from_server_to_bytes m @ rest) = Ok m
   \<and> (from_server_to_bytes m = from_server_to_bytes m' \<longleftrightarrow> m = m')"
  using server_codec.dec_enc server_codec.enc_inj by blast

end
