(* ===== verification/Udp_Server.thy ===== *)
theory Udp_Server
  imports Rust_Collections Udp_Messages
begin

text \<open>
  \<open>src/server/udp.rs\<close>: the rendezvous server. Its state holds, for each requester, the
  peers it asked for (\<open>requests\<close>) and, for each client that completed a match, the session
  recorded for it (\<open>last_session_ids\<close>). The handler of a datagram is \<open>handle_datagram\<close>; its
  core, after authentication, is \<open>handle_request\<close>. The second half states an abstract
  server over a finite relation of pending pairs and proves that the nested maps refine it.
\<close>

subsection \<open>State\<close>

definition REQUEST_TIMEOUT_S :: nat where "REQUEST_TIMEOUT_S = 10"
definition SIGNED_MSG_VALID_S :: int where "SIGNED_MSG_VALID_S = 30"

record pending_request =
  requester_pubkey :: pubkey
  requester_addr :: sockaddr_v4
  requester_session_id :: u32
  pr_tm :: instant

record active_session =
  as_session_id :: u32
  as_remote_addr :: sockaddr_v4
  as_remote_peer :: pubkey

record udp_state =
  requests :: "(pubkey, (pubkey, pending_request) hmap) hmap"
  last_session_ids :: "(pubkey, active_session) hmap"

definition udp_state_new :: udp_state where
  "udp_state_new = \<lparr>requests = [], last_session_ids = []\<rparr>"

text \<open>Less than ten whole seconds old at the instant \<open>now\<close>.\<close>

definition is_fresh :: "instant \<Rightarrow> pending_request \<Rightarrow> bool" where
  "is_fresh now r \<longleftrightarrow> as_secs (elapsed now (pr_tm r)) < REQUEST_TIMEOUT_S"

definition cleanup :: "instant \<Rightarrow> udp_state \<Rightarrow> udp_state" where
  "cleanup now st = st\<lparr>requests :=
     hm_retain (\<lambda>_ inner. inner \<noteq> [])
       (hm_map_values (hm_retain (\<lambda>_ v. is_fresh now v)) (requests st))\<rparr>"

subsection \<open>Handling a connection request\<close>

text \<open>A request that passed authentication, with the instant and source of its datagram.\<close>

record request =
  rq_now :: instant
  rq_addr :: sockaddr_v4
  rq_sender :: pubkey
  rq_peers :: "pubkey list"
  rq_session :: u32

text \<open>The \<open>for\<close> loop over the requested peers: the first one that is waiting for the sender.\<close>

fun find_pending ::
  "pubkey \<Rightarrow> pubkey list \<Rightarrow> (pubkey, (pubkey, pending_request) hmap) hmap \<Rightarrow>
   (pubkey, (pubkey, pending_request) hmap) hmap \<times> (pubkey \<times> pending_request) option" where
  "find_pending sender [] reqs = (reqs, None)"
| "find_pending sender (p # ps) reqs =
     (case hm_get reqs p of
        None \<Rightarrow> find_pending sender ps reqs
      | Some inner \<Rightarrow>
          (case hm_get inner sender of
             None \<Rightarrow> find_pending sender ps reqs
           | Some r \<Rightarrow> (hm_insert p (hm_remove sender inner) reqs, Some (p, r))))"

definition new_pending :: "request \<Rightarrow> pending_request" where
  "new_pending r = \<lparr>requester_pubkey = rq_sender r, requester_addr = rq_addr r,
     requester_session_id = rq_session r, pr_tm = rq_now r\<rparr>"

text \<open>The two notifications of a match.\<close>

definition to_original :: "request \<Rightarrow> from_server" where
  "to_original r = InitiateConnectionRequest (rq_sender r) (rq_addr r) (rq_session r) False"

definition to_new :: "pending_request \<Rightarrow> from_server" where
  "to_new pending = InitiateConnectionRequest (requester_pubkey pending) (requester_addr pending)
     (requester_session_id pending) True"

definition session_of :: "pending_request \<Rightarrow> active_session" where
  "session_of pending = \<lparr>as_session_id = requester_session_id pending,
     as_remote_addr = requester_addr pending, as_remote_peer = requester_pubkey pending\<rparr>"

text \<open>\<open>last_session_ids.get(&sender)\<close> holds this very session id.\<close>

definition lost_session :: "request \<Rightarrow> udp_state \<Rightarrow> active_session option" where
  "lost_session r st =
     (case hm_get (last_session_ids st) (rq_sender r) of
        None \<Rightarrow> None
      | Some s \<Rightarrow> if as_session_id s = rq_session r then Some s else None)"

text \<open>The state after the request and the messages sent, with their destinations.\<close>

definition handle_request ::
  "request \<Rightarrow> udp_state \<Rightarrow> udp_state \<times> (sockaddr_v4 \<times> from_server) list" where
  "handle_request r st0 =
    (let st = cleanup (rq_now r) st0 in
     case lost_session r st of
       Some s \<Rightarrow> (st, [(rq_addr r, LostConnectionRequest (as_remote_peer s) (as_remote_addr s))])
     | None \<Rightarrow>
       (case find_pending (rq_sender r) (rq_peers r) (requests st) of
          (reqs, Some (p, pending)) \<Rightarrow>
            let reqs = (if hm_get reqs p = Some [] then hm_remove p reqs else reqs) in
            (st\<lparr>requests := hm_remove (rq_sender r) reqs,
                last_session_ids := hm_insert (rq_sender r) (session_of pending) (last_session_ids st)\<rparr>,
             [(requester_addr pending, to_original r), (rq_addr r, to_new pending)])
        | (reqs, None) \<Rightarrow>
            (st\<lparr>requests := hm_insert (rq_sender r)
                  (hm_from_iter (map (\<lambda>peer. (peer, new_pending r)) (rq_peers r))) reqs\<rparr>, [])))"

subsection \<open>Datagrams and the server loop\<close>

text \<open>
  One datagram: parse, check the timestamp against the server's clock, handle. A failure is
  logged and changes nothing. Only a panic would end the loop.
\<close>

definition handle_datagram ::
  "'dt chrono \<Rightarrow> 'sk ed25519 \<Rightarrow> 'dt \<Rightarrow> instant \<Rightarrow> socket_addr \<Rightarrow> bytes \<Rightarrow> udp_state \<Rightarrow>
   (udp_state \<times> (sockaddr_v4 \<times> bytes) list, parse_error) res" where
  "handle_datagram ch ed utc_now now src msg st =
    (case src of
       SockV6 _ \<Rightarrow> Ok (st, [])
     | SockV4 addr \<Rightarrow>
       (case signed_try_parse ch ed msg of
          Panic \<Rightarrow> Panic
        | Err _ \<Rightarrow> Ok (st, [])
        | Ok (ConnectionRequest peers sid, sender, tm) \<Rightarrow>
            if \<bar>diff_seconds ch utc_now tm\<bar> > SIGNED_MSG_VALID_S then Ok (st, [])
            else let (st', out) = handle_request
                       \<lparr>rq_now = now, rq_addr = addr, rq_sender = sender, rq_peers = peers, rq_session = sid\<rparr> st
                 in Ok (st', map (\<lambda>(dst, m). (dst, from_server_to_bytes m)) out)))"

datatype 'dt udp_event =
    RecvError
  | Datagram (ev_utc: 'dt) (ev_now: instant) (ev_src: socket_addr) (ev_msg: bytes)
  | ShutdownSignal

text \<open>
  The loop of \<open>run_udp_server\<close>, over the events its \<open>select!\<close> delivers: whether it has ended, its
  state, and what it has sent. \<open>run_udp_server\<close> unwraps the result of \<open>bind\<close> first.
\<close>

fun udp_server_loop ::
  "'dt chrono \<Rightarrow> 'sk ed25519 \<Rightarrow> 'dt udp_event list \<Rightarrow> udp_state \<Rightarrow>
   (bool \<times> udp_state \<times> (sockaddr_v4 \<times> bytes) list, parse_error) res" where
  "udp_server_loop ch ed [] st = Ok (False, st, [])"
| "udp_server_loop ch ed (RecvError # es) st = udp_server_loop ch ed es st"
| "udp_server_loop ch ed (Datagram utc now src msg # es) st =
     bind_res (handle_datagram ch ed utc now src msg st) (\<lambda>(st', out).
     bind_res (udp_server_loop ch ed es st') (\<lambda>(ended, st'', out'). Ok (ended, st'', out @ out')))"
| "udp_server_loop ch ed (ShutdownSignal # es) st = Ok (True, st, [])"

definition run_udp_server ::
  "bool \<Rightarrow> 'dt chrono \<Rightarrow> 'sk ed25519 \<Rightarrow> 'dt udp_event list \<Rightarrow>
   (bool \<times> udp_state \<times> (sockaddr_v4 \<times> bytes) list, parse_error) res" where
  "run_udp_server bound ch ed es = (if bound then udp_server_loop ch ed es udp_state_new else Panic)"

subsection \<open>The abstract server\<close>

text \<open>
  A pending pair \<open>(a, b)\<close>: client \<open>a\<close> waits for client \<open>b\<close>. The abstract server keeps these
  pairs and the recorded sessions as finite maps, without nesting and without the rule that
  drops empty inner maps.
\<close>

type_synonym pairs = "pubkey \<times> pubkey \<Rightarrow> pending_request option"

record spec_state =
  sp_pairs :: pairs
  sp_sessions :: "pubkey \<Rightarrow> active_session option"

definition abs_state :: "udp_state \<Rightarrow> spec_state" where
  "abs_state st = \<lparr>
     sp_pairs = (\<lambda>(a, b). case hm_get (requests st) a of None \<Rightarrow> None | Some inner \<Rightarrow> hm_get inner b),
     sp_sessions = hm_get (last_session_ids st)\<rparr>"

definition live_pairs :: "instant \<Rightarrow> pairs \<Rightarrow> pairs" where
  "live_pairs now ps = (\<lambda>ab. case ps ab of None \<Rightarrow> None | Some r \<Rightarrow> if is_fresh now r then Some r else None)"

definition spec_match ::
  "request \<Rightarrow> pairs \<Rightarrow> spec_state \<Rightarrow> spec_state \<times> (sockaddr_v4 \<times> from_server) list" where
  "spec_match r live sp =
    (let me = rq_sender r in
     case find (\<lambda>p. live (p, me) \<noteq> None) (rq_peers r) of
       Some p \<Rightarrow>
         let pending = the (live (p, me)) in
         (\<lparr>sp_pairs = (\<lambda>(a, b). if a = me \<or> (a, b) = (p, me) then None else live (a, b)),
           sp_sessions = (sp_sessions sp)(me \<mapsto> session_of pending)\<rparr>,
          [(requester_addr pending, to_original r), (rq_addr r, to_new pending)])
     | None \<Rightarrow>
         (\<lparr>sp_pairs = (\<lambda>(a, b). if a = me then (if b \<in> set (rq_peers r) then Some (new_pending r) else None)
                              else live (a, b)),
           sp_sessions = sp_sessions sp\<rparr>, []))"

definition spec_request ::
  "request \<Rightarrow> spec_state \<Rightarrow> spec_state \<times> (sockaddr_v4 \<times> from_server) list" where
  "spec_request r sp =
    (let live = live_pairs (rq_now r) (sp_pairs sp) in
     case sp_sessions sp (rq_sender r) of
       None \<Rightarrow> spec_match r live sp
     | Some s \<Rightarrow>
         if as_session_id s = rq_session r
         then (\<lparr>sp_pairs = live, sp_sessions = sp_sessions sp\<rparr>,
               [(rq_addr r, LostConnectionRequest (as_remote_peer s) (as_remote_addr s))])
         else spec_match r live sp)"

subsection \<open>Well-formed states\<close>

definition inner_ok :: "(pubkey, pending_request) hmap \<Rightarrow> bool" where
  "inner_ok inner \<longleftrightarrow> hm_ok inner \<and> inner \<noteq> [] \<and> length inner \<le> 10"

definition udp_wf :: "udp_state \<Rightarrow> bool" where
  "udp_wf st \<longleftrightarrow> hm_ok (requests st) \<and> hm_ok (last_session_ids st) \<and>
     (\<forall>k inner. hm_get (requests st) k = Some inner \<longrightarrow> inner_ok inner)"

lemma udp_wf_new: "udp_wf udp_state_new"
  by (simp add: udp_wf_def udp_state_new_def hm_ok_def)

lemma udp_wfD:
  assumes "udp_wf st"
  shows "hm_ok (requests st)" "hm_ok (last_session_ids st)"
    and "hm_get (requests st) k = Some inner \<Longrightarrow> hm_ok inner"
    and "hm_get (requests st) k = Some inner \<Longrightarrow> inner \<noteq> []"
    and "hm_get (requests st) k = Some inner \<Longrightarrow> length inner \<le> 10"
  using assms by (auto simp: udp_wf_def inner_ok_def)

lemma hm_get_cleanup:
  assumes "udp_wf st"
  shows "hm_get (requests (cleanup now st)) k =
    (case hm_get (requests st) k of None \<Rightarrow> None
     | Some inner \<Rightarrow> let i = hm_retain (\<lambda>_ v. is_fresh now v) inner in if i \<noteq> [] then Some i else None)"
  using udp_wfD(1) [OF assms] by (simp add: cleanup_def Let_def split: option.split)

lemma last_session_ids_cleanup [simp]: "last_session_ids (cleanup now st) = last_session_ids st"
  by (simp add: cleanup_def)

lemma lost_session_cleanup [simp]: "lost_session r (cleanup now st) = lost_session r st"
  by (simp add: lost_session_def)

lemma udp_wf_cleanup: "udp_wf st \<Longrightarrow> udp_wf (cleanup now st)"
proof -
  assume wf: "udp_wf st"
  then have "inner_ok (hm_retain (\<lambda>_ v. is_fresh now v) inner)"
    if "hm_get (requests st) k = Some inner" "hm_retain (\<lambda>_ v. is_fresh now v) inner \<noteq> []" for k inner
    using that udp_wfD(3,5) [OF wf that(1)] length_hm_retain [of _ inner]
    by (auto simp: inner_ok_def intro: order_trans)
  moreover have "hm_ok (requests (cleanup now st))"
    using udp_wfD(1) [OF wf] by (simp add: cleanup_def)
  ultimately show ?thesis
    using udp_wfD(2) [OF wf]
    by (auto simp: udp_wf_def hm_get_cleanup [OF wf] Let_def split: option.splits if_splits)
qed

definition pair_of ::
  "(pubkey, (pubkey, pending_request) hmap) hmap \<Rightarrow> pubkey \<Rightarrow> pubkey \<Rightarrow> pending_request option" where
  "pair_of reqs a b = (case hm_get reqs a of None \<Rightarrow> None | Some inner \<Rightarrow> hm_get inner b)"

lemma abs_state_pairs: "sp_pairs (abs_state st) (a, b) = pair_of (requests st) a b"
  by (simp add: abs_state_def pair_of_def)

lemma abs_state_sessions [simp]: "sp_sessions (abs_state st) = hm_get (last_session_ids st)"
  by (simp add: abs_state_def)

lemma pair_of_cleanup:
  assumes "udp_wf st"
  shows "pair_of (requests (cleanup now st)) a b = live_pairs now (sp_pairs (abs_state st)) (a, b)"
proof (cases "hm_get (requests st) a")
  case None
  then show ?thesis
    by (simp add: pair_of_def live_pairs_def abs_state_def hm_get_cleanup [OF assms])
next
  case (Some inner)
  then have "hm_ok inner" using udp_wfD(3) [OF assms] by simp
  then have "hm_get (hm_retain (\<lambda>_ v. is_fresh now v) inner) b =
      live_pairs now (sp_pairs (abs_state st)) (a, b)"
    by (simp add: live_pairs_def abs_state_def Some)
  then show ?thesis
    using Some by (auto simp: pair_of_def hm_get_cleanup [OF assms] Let_def)
qed

lemma find_pending_eq:
  "find_pending sender ps reqs =
    (case find (\<lambda>p. pair_of reqs p sender \<noteq> None) ps of
       None \<Rightarrow> (reqs, None)
     | Some p \<Rightarrow> (hm_insert p (hm_remove sender (the (hm_get reqs p))) reqs,
                 Some (p, the (pair_of reqs p sender))))"
  by (induction ps) (auto simp: pair_of_def split: option.splits)

text \<open>Consuming the pending pair \<open>(p, me)\<close> and forgetting what \<open>me\<close> asked for.\<close>

definition consume :: "pubkey \<Rightarrow> pubkey \<Rightarrow> (pubkey, (pubkey, pending_request) hmap) hmap \<Rightarrow>
   (pubkey, (pubkey, pending_request) hmap) hmap" where
  "consume me p reqs =
    (let reqs1 = hm_insert p (hm_remove me (the (hm_get reqs p))) reqs;
         reqs2 = (if hm_get reqs1 p = Some [] then hm_remove p reqs1 else reqs1)
     in hm_remove me reqs2)"

lemma handle_request_eq:
  "handle_request r st0 =
    (let st = cleanup (rq_now r) st0 in
     case lost_session r st0 of
       Some s \<Rightarrow> (st, [(rq_addr r, LostConnectionRequest (as_remote_peer s) (as_remote_addr s))])
     | None \<Rightarrow>
       (case find (\<lambda>p. pair_of (requests st) p (rq_sender r) \<noteq> None) (rq_peers r) of
          Some p \<Rightarrow>
            let pending = the (pair_of (requests st) p (rq_sender r)) in
            (st\<lparr>requests := consume (rq_sender r) p (requests st),
                last_session_ids := hm_insert (rq_sender r) (session_of pending) (last_session_ids st)\<rparr>,
             [(requester_addr pending, to_original r), (rq_addr r, to_new pending)])
        | None \<Rightarrow>
            (st\<lparr>requests := hm_insert (rq_sender r)
                  (hm_from_iter (map (\<lambda>peer. (peer, new_pending r)) (rq_peers r))) (requests st)\<rparr>, [])))"
  by (simp add: handle_request_def find_pending_eq consume_def Let_def split: option.split)

lemma hm_get_consume:
  assumes "udp_wf st" and "hm_get (requests st) p = Some inner"
  shows "hm_get (consume me p (requests st)) a =
    (if a = me then None
     else if a = p then (if hm_remove me inner = [] then None else Some (hm_remove me inner))
     else hm_get (requests st) a)"
  using udp_wfD(1) [OF assms(1)] assms(2) by (auto simp: consume_def Let_def)

lemma hm_ok_consume: "hm_ok reqs \<Longrightarrow> hm_ok (consume me p reqs)"
  by (simp add: consume_def Let_def)

lemma pair_of_consume:
  assumes "udp_wf st" and "hm_get (requests st) p = Some inner"
  shows "pair_of (consume me p (requests st)) a b =
    (if a = me \<or> (a, b) = (p, me) then None else pair_of (requests st) a b)"
proof -
  have "hm_get (hm_remove me inner) b = (if b = me then None else hm_get inner b)"
    using udp_wfD(3) [OF assms] by simp
  then show ?thesis
    using assms(2) by (auto simp: pair_of_def hm_get_consume [OF assms])
qed

lemma udp_wf_handle_request:
  assumes "udp_wf st" and "0 < length (rq_peers r)" "length (rq_peers r) \<le> 10"
  shows "udp_wf (fst (handle_request r st))"
proof -
  let ?st = "cleanup (rq_now r) st"
  let ?inner = "hm_from_iter (map (\<lambda>peer. (peer, new_pending r)) (rq_peers r))"
  have wf: "udp_wf ?st" by (rule udp_wf_cleanup [OF assms(1)])
  have "hm_get ?inner (hd (rq_peers r)) \<noteq> None"
    using assms(2) by (simp add: hm_get_from_iter_map)
  moreover have "length ?inner \<le> 10"
    using length_hm_from_iter [of "map (\<lambda>peer. (peer, new_pending r)) (rq_peers r)"] assms(3) by simp
  ultimately have "inner_ok ?inner"
    by (auto simp: inner_ok_def)
  moreover have "inner_ok (hm_remove me inner)"
    if "hm_get (requests ?st) p = Some inner" "hm_remove me inner \<noteq> []" for me p inner
    using that udp_wfD(3,5) [OF wf that(1)] length_hm_remove [of me inner]
    by (auto simp: inner_ok_def intro: order_trans)
  moreover have "inner_ok inner'" if "hm_get (consume me p (requests ?st)) k = Some inner'"
    "pair_of (requests ?st) p me \<noteq> None" for me p k inner'
  proof -
    from that(2) obtain inner where i: "hm_get (requests ?st) p = Some inner"
      by (auto simp: pair_of_def split: option.splits)
    show ?thesis
      using that(1) wf calculation(2) [OF i] unfolding hm_get_consume [OF wf i]
      by (auto simp: udp_wf_def split: if_splits)
  qed
  ultimately show ?thesis
    using wf udp_wfD(1,2) [OF wf]
    by (auto simp: handle_request_eq udp_wf_def Let_def hm_ok_consume find_Some_iff
        split: option.splits if_splits)
qed

subsection \<open>Refinement\<close>

lemma abs_state_eqI:
  assumes "\<And>a b. pair_of (requests st) a b = ps (a, b)" and "hm_get (last_session_ids st) = ss"
  shows "abs_state st = \<lparr>sp_pairs = ps, sp_sessions = ss\<rparr>"
  using assms by (auto simp: abs_state_def pair_of_def fun_eq_iff)

lemma pair_of_place:
  assumes "hm_ok reqs"
  shows "pair_of (hm_insert me (hm_from_iter (map (\<lambda>peer. (peer, v)) peers)) reqs) a b =
    (if a = me then (if b \<in> set peers then Some v else None) else pair_of reqs a b)"
  using assms by (simp add: pair_of_def hm_get_from_iter_map [where f = "\<lambda>_. v"])

lemma spec_request_match:
  assumes "lost_session r st = None"
  shows "spec_request r (abs_state st) =
    spec_match r (live_pairs (rq_now r) (sp_pairs (abs_state st))) (abs_state st)"
  using assms by (auto simp: spec_request_def lost_session_def Let_def split: option.splits if_splits)

lemma handle_request_spec:
  assumes wf: "udp_wf st"
  shows "(abs_state (fst (handle_request r st)), snd (handle_request r st)) = spec_request r (abs_state st)"
proof -
  let ?st = "cleanup (rq_now r) st"
  let ?live = "live_pairs (rq_now r) (sp_pairs (abs_state st))"
  let ?waiting = "find (\<lambda>p. ?live (p, rq_sender r) \<noteq> None) (rq_peers r)"
  have wf': "udp_wf ?st" by (rule udp_wf_cleanup [OF wf])
  note live = pair_of_cleanup [OF wf]
  show ?thesis
  proof (cases "lost_session r st")
    case (Some s)
    then have "hm_get (last_session_ids st) (rq_sender r) = Some s" "as_session_id s = rq_session r"
      by (auto simp: lost_session_def split: option.splits if_splits)
    moreover have "abs_state ?st = \<lparr>sp_pairs = ?live, sp_sessions = sp_sessions (abs_state st)\<rparr>"
      by (rule abs_state_eqI) (simp_all add: live)
    ultimately show ?thesis
      using Some by (simp add: handle_request_eq spec_request_def Let_def)
  next
    case None
    show ?thesis
    proof (cases ?waiting)
      case no: None
      then show ?thesis
        using None wf' unfolding spec_request_match [OF None]
        by (simp add: handle_request_eq spec_match_def Let_def live udp_wfD(1) pair_of_place
            abs_state_eqI [where ss = "hm_get (last_session_ids st)"])
    next
      case (Some p)
      then have "pair_of (requests ?st) p (rq_sender r) \<noteq> None"
        by (auto simp: find_Some_iff live)
      then obtain inner where "hm_get (requests ?st) p = Some inner"
        by (auto simp: pair_of_def split: option.splits)
      note consume = pair_of_consume [OF wf' this]
      show ?thesis
        using None Some unfolding spec_request_match [OF None]
        by (auto simp: handle_request_eq spec_match_def Let_def live consume udp_wfD(2) [OF wf]
            fun_eq_iff intro!: abs_state_eqI)
    qed
  qed
qed

lemma abs_handle_request: "udp_wf st \<Longrightarrow> abs_state (fst (handle_request r st)) = fst (spec_request r (abs_state st))"
  by (simp flip: handle_request_spec)

lemma out_handle_request: "udp_wf st \<Longrightarrow> snd (handle_request r st) = snd (spec_request r (abs_state st))"
  by (simp flip: handle_request_spec)

subsection \<open>Where notifications come from\<close>

definition valid_request :: "request \<Rightarrow> bool" where
  "valid_request r \<longleftrightarrow> 0 < length (rq_peers r) \<and> length (rq_peers r) \<le> 10"

text \<open>Each of the two lists the other, and the first is still fresh at the second.\<close>

definition mutual :: "request \<Rightarrow> request \<Rightarrow> bool" where
  "mutual q r \<longleftrightarrow> rq_sender r \<in> set (rq_peers q) \<and> rq_sender q \<in> set (rq_peers r)
     \<and> is_fresh (rq_now r) (new_pending q)"

text \<open>The server's state with the requests served so far, the latest first.\<close>

definition serve :: "udp_state \<times> request list \<Rightarrow> request \<Rightarrow> udp_state \<times> request list" where
  "serve sh r = (fst (handle_request r (fst sh)), r # snd sh)"

definition served :: "request list \<Rightarrow> udp_state" where
  "served rs = fst (foldl serve (udp_state_new, []) rs)"

definition from_history :: "request list \<Rightarrow> spec_state \<Rightarrow> bool" where
  "from_history h sp \<longleftrightarrow>
     (\<forall>a b p. sp_pairs sp (a, b) = Some p \<longrightarrow>
        (\<exists>q \<in> set h. p = new_pending q \<and> rq_sender q = a \<and> b \<in> set (rq_peers q))) \<and>
     (\<forall>k s. sp_sessions sp k = Some s \<longrightarrow>
        (\<exists>q \<in> set h. \<exists>r \<in> set h. s = session_of (new_pending q) \<and> rq_sender r = k \<and> mutual q r))"

lemma new_pending_simps [simp]:
  "requester_pubkey (new_pending q) = rq_sender q" "requester_addr (new_pending q) = rq_addr q"
  "requester_session_id (new_pending q) = rq_session q" "pr_tm (new_pending q) = rq_now q"
  by (simp_all add: new_pending_def)

lemma live_pairs_Some: "live_pairs now ps ab = Some p \<longleftrightarrow> ps ab = Some p \<and> is_fresh now p"
  by (auto simp: live_pairs_def split: option.splits if_splits)

text \<open>The pending pair that a match consumes goes back to a mutual earlier request.\<close>

lemma waiting_mutual:
  assumes "from_history h sp"
    and "find (\<lambda>p. live_pairs (rq_now r) (sp_pairs sp) (p, rq_sender r) \<noteq> None) (rq_peers r) = Some p"
  obtains q where "q \<in> set h" "mutual q r" "rq_sender q = p"
    "live_pairs (rq_now r) (sp_pairs sp) (p, rq_sender r) = Some (new_pending q)"
proof -
  from assms(2) obtain w where w: "live_pairs (rq_now r) (sp_pairs sp) (p, rq_sender r) = Some w"
    and p: "p \<in> set (rq_peers r)"
    by (auto simp: find_Some_iff)
  then have "sp_pairs sp (p, rq_sender r) = Some w" "is_fresh (rq_now r) w"
    by (simp_all add: live_pairs_Some)
  with assms(1) obtain q where "q \<in> set h" "w = new_pending q" "rq_sender q = p" "rq_sender r \<in> set (rq_peers q)"
    unfolding from_history_def by blast
  with w p \<open>is_fresh (rq_now r) w\<close> show ?thesis
    by (intro that [of q]) (auto simp: mutual_def)
qed

lemma from_historyI:
  assumes "\<And>a b p. sp_pairs sp (a, b) = Some p \<Longrightarrow>
      \<exists>q \<in> set h. p = new_pending q \<and> rq_sender q = a \<and> b \<in> set (rq_peers q)"
    and "\<And>k s. sp_sessions sp k = Some s \<Longrightarrow>
      \<exists>q \<in> set h. \<exists>r \<in> set h. s = session_of (new_pending q) \<and> rq_sender r = k \<and> mutual q r"
  shows "from_history h sp"
  using assms by (simp add: from_history_def)

lemma from_history_pairD:
  "from_history h sp \<Longrightarrow> sp_pairs sp (a, b) = Some p \<Longrightarrow>
     \<exists>q \<in> set h. p = new_pending q \<and> rq_sender q = a \<and> b \<in> set (rq_peers q)"
  by (simp add: from_history_def)

lemma from_history_sessionD:
  "from_history h sp \<Longrightarrow> sp_sessions sp k = Some s \<Longrightarrow>
     \<exists>q \<in> set h. \<exists>r \<in> set h. s = session_of (new_pending q) \<and> rq_sender r = k \<and> mutual q r"
  by (simp add: from_history_def)

lemma from_history_match:
  assumes h: "from_history h sp"
  shows "from_history (r # h) (fst (spec_match r (live_pairs (rq_now r) (sp_pairs sp)) sp))"
    (is "from_history _ (fst (spec_match r ?live sp))")
proof (rule from_historyI)
  fix a b p assume "sp_pairs (fst (spec_match r ?live sp)) (a, b) = Some p"
  then have "?live (a, b) = Some p \<or> p = new_pending r \<and> rq_sender r = a \<and> b \<in> set (rq_peers r)"
    by (auto simp: spec_match_def Let_def split: option.splits if_splits)
  then have "sp_pairs sp (a, b) = Some p \<or> p = new_pending r \<and> rq_sender r = a \<and> b \<in> set (rq_peers r)"
    by (auto simp: live_pairs_Some)
  then show "\<exists>q \<in> set (r # h). p = new_pending q \<and> rq_sender q = a \<and> b \<in> set (rq_peers q)"
    using from_history_pairD [OF h, of a b p] by (elim disjE) simp_all
next
  fix k s assume "sp_sessions (fst (spec_match r ?live sp)) k = Some s"
  then have "sp_sessions sp k = Some s \<or>
    (\<exists>p. find (\<lambda>p. ?live (p, rq_sender r) \<noteq> None) (rq_peers r) = Some p
       \<and> k = rq_sender r \<and> s = session_of (the (?live (p, rq_sender r))))"
    by (cases "find (\<lambda>p. ?live (p, rq_sender r) \<noteq> None) (rq_peers r)")
      (simp_all add: spec_match_def Let_def split: if_splits)
  then consider (old) "sp_sessions sp k = Some s"
    | (new) p where "find (\<lambda>p. ?live (p, rq_sender r) \<noteq> None) (rq_peers r) = Some p"
        "k = rq_sender r" "s = session_of (the (?live (p, rq_sender r)))"
    by blast
  then show "\<exists>q \<in> set (r # h). \<exists>r' \<in> set (r # h).
      s = session_of (new_pending q) \<and> rq_sender r' = k \<and> mutual q r'"
  proof cases
    case old
    from from_history_sessionD [OF h old] obtain q r'
      where "q \<in> set h" "r' \<in> set h" "s = session_of (new_pending q) \<and> rq_sender r' = k \<and> mutual q r'"
      by blast
    then show ?thesis by (intro bexI [of _ q] bexI [of _ r']) simp_all
  next
    case (new p)
    from waiting_mutual [OF h new(1)] obtain q where "q \<in> set h" "mutual q r"
      "?live (p, rq_sender r) = Some (new_pending q)" .
    with new show ?thesis by (intro bexI [of _ q] bexI [of _ r]) simp_all
  qed
qed

lemma from_history_live:
  assumes "from_history h sp"
  shows "from_history (r # h) \<lparr>sp_pairs = live_pairs now (sp_pairs sp), sp_sessions = sp_sessions sp\<rparr>"
proof (rule from_historyI)
  fix a b p assume "sp_pairs \<lparr>sp_pairs = live_pairs now (sp_pairs sp), sp_sessions = sp_sessions sp\<rparr> (a, b) = Some p"
  then show "\<exists>q \<in> set (r # h). p = new_pending q \<and> rq_sender q = a \<and> b \<in> set (rq_peers q)"
    using from_history_pairD [OF assms, of a b p] by (auto simp: live_pairs_Some)
next
  fix k s assume "sp_sessions \<lparr>sp_pairs = live_pairs now (sp_pairs sp), sp_sessions = sp_sessions sp\<rparr> k = Some s"
  then show "\<exists>q \<in> set (r # h). \<exists>r' \<in> set (r # h).
      s = session_of (new_pending q) \<and> rq_sender r' = k \<and> mutual q r'"
    using from_history_sessionD [OF assms, of k s] by auto
qed

lemma from_history_spec_request:
  assumes "from_history h sp"
  shows "from_history (r # h) (fst (spec_request r sp))"
  using from_history_match [OF assms] from_history_live [OF assms]
  by (auto simp: spec_request_def Let_def split: option.splits)

interpretation udp: event_machine serve valid_request "(udp_state_new, [])"
  "\<lambda>(st, h). udp_wf st \<and> from_history h (abs_state st)"
proof unfold_locales
  show "case (udp_state_new, []) of (st, h) \<Rightarrow> udp_wf st \<and> from_history h (abs_state st)"
    using udp_wf_new by (simp add: from_history_def abs_state_def udp_state_new_def)
next
  fix sh r
  assume inv: "case sh of (st, h) \<Rightarrow> udp_wf st \<and> from_history h (abs_state st)" and r: "valid_request r"
  obtain st h where sh: "sh = (st, h)" by (cases sh)
  from inv r sh show "case serve sh r of (st, h) \<Rightarrow> udp_wf st \<and> from_history h (abs_state st)"
    by (simp add: serve_def valid_request_def udp_wf_handle_request abs_handle_request from_history_spec_request)
qed

lemma snd_serve_run: "snd (foldl serve (st, h) rs) = rev rs @ h"
  by (induction rs arbitrary: st h) (simp_all add: serve_def)

lemma served_inv:
  assumes "\<forall>q \<in> set rs. valid_request q"
  shows "udp_wf (served rs)" and "from_history (rev rs) (abs_state (served rs))"
  using udp.inv_run [of rs] assms snd_serve_run [of udp_state_new "[]" rs]
  by (auto simp: served_def split: prod.splits)

lemma served_snoc: "served (rs @ [r]) = fst (handle_request r (served rs))"
  by (simp add: served_def serve_def)

subsection \<open>Properties of the server\<close>

text \<open>What the abstract server sends: nothing, one lost notification, or the two of a match.\<close>

lemma spec_request_out:
  "snd (spec_request r sp) =
    (case sp_sessions sp (rq_sender r) of
       Some s \<Rightarrow> if as_session_id s = rq_session r
                then [(rq_addr r, LostConnectionRequest (as_remote_peer s) (as_remote_addr s))]
                else snd (spec_match r (live_pairs (rq_now r) (sp_pairs sp)) sp)
     | None \<Rightarrow> snd (spec_match r (live_pairs (rq_now r) (sp_pairs sp)) sp))"
  by (simp add: spec_request_def Let_def split: option.split)

lemma spec_match_out:
  "snd (spec_match r live sp) =
    (case find (\<lambda>p. live (p, rq_sender r) \<noteq> None) (rq_peers r) of
       Some p \<Rightarrow> [(requester_addr (the (live (p, rq_sender r))), to_original r),
                  (rq_addr r, to_new (the (live (p, rq_sender r))))]
     | None \<Rightarrow> [])"
  by (simp add: spec_match_def Let_def split: option.split)

lemma handle_request_out_cases:
  assumes "udp_wf st" and "from_history h (abs_state st)"
  obtains (silent) "snd (handle_request r st) = []"
  | (lost) s where "hm_get (last_session_ids st) (rq_sender r) = Some s" "as_session_id s = rq_session r"
      "snd (handle_request r st) = [(rq_addr r, LostConnectionRequest (as_remote_peer s) (as_remote_addr s))]"
  | (matched) q where "q \<in> set h" "mutual q r"
      "snd (handle_request r st) = [(rq_addr q, to_original r), (rq_addr r, to_new (new_pending q))]"
proof (cases "\<exists>s. hm_get (last_session_ids st) (rq_sender r) = Some s \<and> as_session_id s = rq_session r")
  case True
  with lost show ?thesis by (auto simp: out_handle_request [OF assms(1)] spec_request_out)
next
  case False
  let ?live = "live_pairs (rq_now r) (sp_pairs (abs_state st))"
  from False have out: "snd (handle_request r st) = snd (spec_match r ?live (abs_state st))"
    by (auto simp: out_handle_request [OF assms(1)] spec_request_out split: option.split)
  show ?thesis
  proof (cases "find (\<lambda>p. ?live (p, rq_sender r) \<noteq> None) (rq_peers r)")
    case None
    with out silent show ?thesis by (simp add: spec_match_out)
  next
    case (Some p)
    from waiting_mutual [OF assms(2) Some] obtain q where "q \<in> set h" "mutual q r"
      "?live (p, rq_sender r) = Some (new_pending q)" .
    with Some out matched show ?thesis by (simp add: spec_match_out)
  qed
qed

text \<open>
  Two clients for the witnesses below: Alice asks for Bob, and five seconds later Bob asks
  for a third client and for Alice.
\<close>

definition ex_alice :: request where
  "ex_alice = \<lparr>rq_now = 0, rq_addr = sock4 (Ipv4 1 2 3 4) 5, rq_sender = key_fill 1,
     rq_peers = [key_fill 2], rq_session = 9\<rparr>"

definition ex_bob :: request where
  "ex_bob = \<lparr>rq_now = 5 * ns_per_sec, rq_addr = sock4 (Ipv4 5 6 7 8) 9, rq_sender = key_fill 2,
     rq_peers = [key_fill 3, key_fill 1], rq_session = 11\<rparr>"

lemma ex_sel [simp]:
  "rq_now ex_alice = 0" "rq_sender ex_alice = key_fill 1" "rq_peers ex_alice = [key_fill 2]"
  "rq_session ex_alice = 9" "rq_now ex_bob = 5 * ns_per_sec" "rq_sender ex_bob = key_fill 2"
  "rq_peers ex_bob = [key_fill 3, key_fill 1]" "rq_session ex_bob = 11"
  by (simp_all add: ex_alice_def ex_bob_def)

lemma ex_valid [simp]: "valid_request ex_alice" "valid_request ex_bob"
  by (simp_all add: valid_request_def)

lemma ex_alice_placed:
  "handle_request ex_alice udp_state_new =
    (\<lparr>requests = [(key_fill 1, [(key_fill 2, new_pending ex_alice)])], last_session_ids = []\<rparr>, [])"
  by (simp add: handle_request_eq Let_def udp_state_new_def cleanup_def hm_map_values_def hm_retain_def
      lost_session_def pair_of_def hm_insert_def hm_from_iter_def)

lemma ex_bob_matched:
  "snd (handle_request ex_bob (fst (handle_request ex_alice udp_state_new))) =
    [(rq_addr ex_alice, to_original ex_bob), (rq_addr ex_bob, to_new (new_pending ex_alice))]"
  unfolding ex_alice_placed
  by (simp add: handle_request_eq Let_def cleanup_def hm_map_values_def hm_retain_def
      lost_session_def pair_of_def hm_get_def is_fresh_def time_simps
      REQUEST_TIMEOUT_S_def)

text \<open>C3: The nested request maps implement the abstract server: from a well-formed state, handling
  a request changes the abstract pairs and sessions, and sends messages, exactly as the
  abstract server does.\<close>

theorem server_refines_spec:
  assumes "udp_wf st"
  shows "map_prod abs_state id (handle_request r st) = spec_request r (abs_state st)"
  using handle_request_spec [OF assms, of r] by (simp add: map_prod_def case_prod_unfold)

theorem server_refines_spec_witness:
  "map_prod abs_state id (handle_request ex_alice udp_state_new) = spec_request ex_alice (abs_state udp_state_new)"
  by (rule server_refines_spec [OF udp_wf_new])

text \<open>C17: Whatever requests came before, the server's maps stay well formed: distinct keys, no empty
  inner map, at most ten pending peers for a requester, and after a request every pending
  entry is less than ten seconds old.\<close>

theorem server_state_bounded:
  assumes "\<forall>q \<in> set (rs @ [r]). valid_request q"
  shows "udp_wf (served (rs @ [r])) \<and>
    (\<forall>a b p. pair_of (requests (served (rs @ [r]))) a b = Some p \<longrightarrow> is_fresh (rq_now r) p)"
proof -
  have wf: "udp_wf (served rs)" using served_inv(1) [of rs] assms by simp
  have "is_fresh (rq_now r) p" if "pair_of (requests (served (rs @ [r]))) a b = Some p" for a b p
  proof -
    from that have "sp_pairs (fst (spec_request r (abs_state (served rs)))) (a, b) = Some p"
      by (simp add: served_snoc abs_state_pairs flip: abs_handle_request [OF wf])
    then show ?thesis
      by (auto simp: spec_request_def spec_match_def Let_def live_pairs_Some is_fresh_def elapsed_def
          as_secs_def REQUEST_TIMEOUT_S_def split: option.splits if_splits)
  qed
  then show ?thesis using served_inv(1) [OF assms] by blast
qed

theorem server_state_bounded_witness:
  "udp_wf (served [ex_alice]) \<and> pair_of (requests (served [ex_alice])) (key_fill 1) (key_fill 2) = Some (new_pending ex_alice)
    \<and> is_fresh (rq_now ex_alice) (new_pending ex_alice)"
proof -
  have pair: "pair_of (requests (served [ex_alice])) (key_fill 1) (key_fill 2) = Some (new_pending ex_alice)"
    by code_simp
  from server_state_bounded [of "[]" ex_alice] pair show ?thesis by simp
qed

text \<open>C1: A client is told to start a connection only on a mutual request: when the server sends an
  initiation while serving \<open>r\<close>, some earlier request \<open>q\<close> of another datagram, less than ten
  seconds old, lists the sender of \<open>r\<close>, and \<open>r\<close> lists the sender of \<open>q\<close>. Exactly two messages
  go out, to the two source addresses, each with the other side's key, address and session
  id, and exactly the sender of \<open>r\<close> is told to be the listener.\<close>

theorem match_agreement:
  assumes "\<forall>q \<in> set rs. valid_request q"
    and "(dst, InitiateConnectionRequest k a sid listener) \<in> set (snd (handle_request r (served rs)))"
  shows "\<exists>q \<in> set rs. rq_sender r \<in> set (rq_peers q) \<and> rq_sender q \<in> set (rq_peers r)
    \<and> as_secs (elapsed (rq_now r) (rq_now q)) < 10
    \<and> snd (handle_request r (served rs)) =
        [(rq_addr q, InitiateConnectionRequest (rq_sender r) (rq_addr r) (rq_session r) False),
         (rq_addr r, InitiateConnectionRequest (rq_sender q) (rq_addr q) (rq_session q) True)]"
proof (cases rule: handle_request_out_cases [OF served_inv [OF assms(1)], of r, case_names silent lost matched])
  case (matched q)
  then show ?thesis
    by (intro bexI [of _ q])
      (auto simp: mutual_def to_original_def to_new_def is_fresh_def REQUEST_TIMEOUT_S_def)
qed (use assms(2) in auto)

theorem match_agreement_witness:
  "\<exists>q \<in> set [ex_alice]. rq_sender ex_bob \<in> set (rq_peers q) \<and> rq_sender q \<in> set (rq_peers ex_bob)
    \<and> as_secs (elapsed (rq_now ex_bob) (rq_now q)) < 10
    \<and> snd (handle_request ex_bob (served [ex_alice])) =
        [(rq_addr q, InitiateConnectionRequest (rq_sender ex_bob) (rq_addr ex_bob) (rq_session ex_bob) False),
         (rq_addr ex_bob, InitiateConnectionRequest (rq_sender q) (rq_addr q) (rq_session q) True)]"
proof (rule match_agreement)
  show "\<forall>q \<in> set [ex_alice]. valid_request q" by simp
  show "(rq_addr ex_alice, InitiateConnectionRequest (key_fill 2) (rq_addr ex_bob) 11 False)
      \<in> set (snd (handle_request ex_bob (served [ex_alice])))"
    using ex_bob_matched by (simp add: served_def serve_def to_original_def)
qed

lemma match_consumes_spec:
  assumes "length (snd (spec_request r sp)) = 2"
  shows "\<exists>p \<in> set (rq_peers r). sp_pairs (fst (spec_request r sp)) =
    (\<lambda>(a, b). if a = rq_sender r \<or> (a, b) = (p, rq_sender r) then None
              else live_pairs (rq_now r) (sp_pairs sp) (a, b))"
proof -
  let ?live = "live_pairs (rq_now r) (sp_pairs sp)"
  from assms have m: "spec_request r sp = spec_match r ?live sp"
    by (auto simp: spec_request_def Let_def split: option.splits if_splits)
  with assms obtain p where p: "find (\<lambda>p. ?live (p, rq_sender r) \<noteq> None) (rq_peers r) = Some p"
    by (auto simp: spec_match_out split: option.splits)
  then have "p \<in> set (rq_peers r)" by (auto simp: find_Some_iff)
  with p show ?thesis
    unfolding m by (intro bexI [of _ p]) (simp_all add: spec_match_def Let_def)
qed

text \<open>A match consumes what it used: afterwards neither client waits for the other (nor does the
  sender wait for anyone), so the same pair of requests is never matched twice, and every
  other live pending pair is kept.\<close>

lemma match_consumes:
  assumes "udp_wf st" and "length (snd (handle_request r st)) = 2"
  shows "\<exists>p \<in> set (rq_peers r). \<forall>a b. pair_of (requests (fst (handle_request r st))) a b =
    (if a = rq_sender r \<or> (a, b) = (p, rq_sender r) then None
     else live_pairs (rq_now r) (sp_pairs (abs_state st)) (a, b))"
proof -
  from assms have "length (snd (spec_request r (abs_state st))) = 2"
    by (simp add: out_handle_request)
  from match_consumes_spec [OF this] obtain p where p: "p \<in> set (rq_peers r)"
    and pairs: "sp_pairs (abs_state (fst (handle_request r st))) =
      (\<lambda>(a, b). if a = rq_sender r \<or> (a, b) = (p, rq_sender r) then None
        else live_pairs (rq_now r) (sp_pairs (abs_state st)) (a, b))"
    by (auto simp: abs_handle_request [OF assms(1)])
  show ?thesis
    by (rule bexI [OF _ p]) (simp add: pairs flip: abs_state_pairs)
qed

lemma match_consumes_witness:
  "\<exists>p \<in> set (rq_peers ex_bob). \<forall>a b.
     pair_of (requests (fst (handle_request ex_bob (served [ex_alice])))) a b =
       (if a = rq_sender ex_bob \<or> (a, b) = (p, rq_sender ex_bob) then None
        else live_pairs (rq_now ex_bob) (sp_pairs (abs_state (served [ex_alice]))) (a, b))"
proof (rule match_consumes)
  show "udp_wf (served [ex_alice])" by (rule served_inv(1)) simp
  show "length (snd (handle_request ex_bob (served [ex_alice]))) = 2"
    using ex_bob_matched by (simp add: served_def serve_def)
qed

subsection \<open>Meeting at the server\<close>

lemma placed_pairs:
  assumes "udp_wf st" and "snd (handle_request r st) = []"
  shows "pair_of (requests (fst (handle_request r st))) (rq_sender r) b =
    (if b \<in> set (rq_peers r) then Some (new_pending r) else None)"
proof -
  have "sp_pairs (fst (spec_request r (abs_state st))) (rq_sender r, b) =
      (if b \<in> set (rq_peers r) then Some (new_pending r) else None)"
    using assms(2) unfolding out_handle_request [OF assms(1)]
    by (auto simp: spec_request_def spec_match_def Let_def split: option.splits if_splits)
  then show ?thesis
    by (simp add: abs_state_pairs flip: abs_handle_request [OF assms(1)])
qed

lemma pending_persists:
  assumes "udp_wf st" and "pair_of (requests st) a b = Some p" and "is_fresh (rq_now r) p"
    and "rq_sender r \<noteq> a" "rq_sender r \<noteq> b"
  shows "pair_of (requests (fst (handle_request r st))) a b = Some p"
proof -
  have "live_pairs (rq_now r) (sp_pairs (abs_state st)) (a, b) = Some p"
    using assms(2,3) by (simp add: live_pairs_Some abs_state_pairs)
  then have "sp_pairs (fst (spec_request r (abs_state st))) (a, b) = Some p"
    using assms(4,5) by (auto simp: spec_request_def spec_match_def Let_def split: option.split)
  then show ?thesis
    by (simp add: abs_state_pairs flip: abs_handle_request [OF assms(1)])
qed

lemma pending_persists_served:
  assumes "\<forall>r \<in> set (rs @ mid). valid_request r" and "pair_of (requests (served rs)) a b = Some p"
    and "\<forall>r \<in> set mid. is_fresh (rq_now r) p \<and> rq_sender r \<noteq> a \<and> rq_sender r \<noteq> b"
  shows "pair_of (requests (served (rs @ mid))) a b = Some p"
  using assms
proof (induction mid rule: rev_induct)
  case Nil
  then show ?case by simp
next
  case (snoc r mid)
  then have "pair_of (requests (served (rs @ mid))) a b = Some p" "udp_wf (served (rs @ mid))"
    by (auto intro: served_inv(1))
  with snoc.prems(3) show ?case
    unfolding append_assoc [symmetric] served_snoc by (intro pending_persists) simp_all
qed

text \<open>The two notifications of a match between an earlier request \<open>q\<close> and \<open>r\<close>; and who waits for whom.\<close>

definition match_of :: "request \<Rightarrow> request \<Rightarrow> (sockaddr_v4 \<times> from_server) list" where
  "match_of q r =
    [(rq_addr q, InitiateConnectionRequest (rq_sender r) (rq_addr r) (rq_session r) False),
     (rq_addr r, InitiateConnectionRequest (rq_sender q) (rq_addr q) (rq_session q) True)]"

definition waits_for :: "udp_state \<Rightarrow> instant \<Rightarrow> pubkey \<Rightarrow> pubkey \<Rightarrow> bool" where
  "waits_for st now a b \<longleftrightarrow> (\<exists>p. pair_of (requests st) a b = Some p \<and> is_fresh now p)"

lemma waits_for_live:
  "waits_for st now a b \<longleftrightarrow> live_pairs now (sp_pairs (abs_state st)) (a, b) \<noteq> None"
  by (auto simp: waits_for_def live_pairs_Some abs_state_pairs)

lemma find_before:
  assumes "find P xs = Some y" and "P x"
  shows "if \<exists>z \<in> set (takeWhile (\<lambda>z. z \<noteq> x) xs). P z then y \<in> set (takeWhile (\<lambda>z. z \<noteq> x) xs) \<and> P y else y = x"
  using assms
proof (induction xs)
  case (Cons z zs)
  then show ?case by (cases "P z"; cases "z = x"; auto)
qed simp

text \<open>A client that somebody on its list waits for is matched with the first such.\<close>

lemma waiting_matched:
  assumes "\<forall>q \<in> set rs. valid_request q" and "lost_session r (served rs) = None"
    and "waits_for (served rs) (rq_now r) a (rq_sender r)" and "a \<in> set (rq_peers r)"
  obtains q where "q \<in> set rs" "mutual q r" "snd (handle_request r (served rs)) = match_of q r"
    "if \<exists>p \<in> set (takeWhile (\<lambda>p. p \<noteq> a) (rq_peers r)). waits_for (served rs) (rq_now r) p (rq_sender r)
      then rq_sender q \<in> set (takeWhile (\<lambda>p. p \<noteq> a) (rq_peers r))
        \<and> waits_for (served rs) (rq_now r) (rq_sender q) (rq_sender r)
      else rq_sender q = a"
    "pair_of (requests (served rs)) (rq_sender q) (rq_sender r) = Some (new_pending q)"
proof -
  let ?live = "live_pairs (rq_now r) (sp_pairs (abs_state (served rs)))"
  note wf = served_inv(1) [OF assms(1)] and hist = served_inv(2) [OF assms(1)]
  have a: "?live (a, rq_sender r) \<noteq> None" using assms(3) by (simp add: waits_for_live)
  with assms(4) obtain p where p: "find (\<lambda>p. ?live (p, rq_sender r) \<noteq> None) (rq_peers r) = Some p"
    by (cases "find (\<lambda>p. ?live (p, rq_sender r) \<noteq> None) (rq_peers r)") (auto simp: find_None_iff)
  from waiting_mutual [OF hist p] obtain q where q: "q \<in> set rs" "mutual q r" "rq_sender q = p"
    "?live (p, rq_sender r) = Some (new_pending q)" by auto
  have "snd (handle_request r (served rs)) = match_of q r"
    using p q by (simp add: out_handle_request [OF wf] spec_request_match [OF assms(2)] spec_match_out
        to_original_def to_new_def match_of_def)
  moreover have "pair_of (requests (served rs)) p (rq_sender r) = Some (new_pending q)"
    using q(4) by (simp add: live_pairs_Some abs_state_pairs)
  moreover note find_before [OF p, of a, folded waits_for_live, OF assms(3)]
  ultimately show ?thesis using that [of q] q(1-3) by simp
qed

text \<open>Session ids that tell clients apart are never taken for a recorded one.\<close>

lemma no_lost_session:
  assumes "\<forall>q \<in> set rs. valid_request q \<and> (rq_session q = rq_session r \<longrightarrow> rq_sender q = rq_sender r)"
    and "\<forall>q \<in> set rs. rq_sender q \<notin> set (rq_peers q)"
  shows "lost_session r (served rs) = None"
proof (rule ccontr)
  assume "lost_session r (served rs) \<noteq> None"
  then obtain s where s: "hm_get (last_session_ids (served rs)) (rq_sender r) = Some s" "as_session_id s = rq_session r"
    by (auto simp: lost_session_def split: option.splits if_splits)
  have "sp_sessions (abs_state (served rs)) (rq_sender r) = Some s" using s(1) by simp
  moreover have "from_history (rev rs) (abs_state (served rs))" using assms(1) by (intro served_inv(2)) simp
  note from_history_sessionD [OF this, of "rq_sender r" s]
  ultimately obtain q r' where q: "q \<in> set rs" "r' \<in> set rs" "s = session_of (new_pending q)"
    "rq_sender r' = rq_sender r" "mutual q r'" by auto
  with assms(1) s(2) have "rq_sender q = rq_sender r" by (simp add: session_of_def)
  with q assms(2) show False by (auto simp: mutual_def)
qed

text \<open>C2: A client that waits for another one is met. Alice's request is placed; other clients send
  whatever valid requests they like, before and in between; then, while Alice's request is
  fresh, Bob asks for Alice. Bob is matched at once: with Alice, each being told the other's
  address and session with opposite roles, if nobody whom Bob lists before her waits for him, and
  otherwise with such a one, by that client's own earlier request. It is assumed that different
  clients use different session ids and that no client asks for itself.\<close>

theorem rendezvous:
  assumes "\<forall>q \<in> set (hist @ alice # mid). valid_request q \<and> rq_sender q \<notin> set (rq_peers q)
      \<and> (rq_session q = rq_session bob \<longrightarrow> rq_sender q = rq_sender bob)"
    and "snd (handle_request alice (served hist)) = []"
    and mid: "\<forall>r \<in> set mid. is_fresh (rq_now r) (new_pending alice) \<and> rq_sender r \<noteq> rq_sender alice \<and> rq_sender r \<noteq> rq_sender bob"
    and "rq_sender bob \<in> set (rq_peers alice)" and "rq_sender alice \<in> set (rq_peers bob)"
    and "is_fresh (rq_now bob) (new_pending alice)"
  shows "let before = served (hist @ alice # mid);
      earlier = takeWhile (\<lambda>p. p \<noteq> rq_sender alice) (rq_peers bob)
    in (if \<exists>p \<in> set earlier. waits_for before (rq_now bob) p (rq_sender bob)
        then \<exists>q \<in> set (hist @ alice # mid). mutual q bob \<and> snd (handle_request bob before) = match_of q bob
          \<and> rq_sender q \<in> set earlier \<and> waits_for before (rq_now bob) (rq_sender q) (rq_sender bob)
        else snd (handle_request bob before) = match_of alice bob)"
proof -
  let ?rs = "hist @ alice # mid" and ?earlier = "takeWhile (\<lambda>p. p \<noteq> rq_sender alice) (rq_peers bob)"
  have valid: "\<forall>q \<in> set ?rs. valid_request q" using assms(1) by simp
  have "pair_of (requests (served (hist @ [alice]))) (rq_sender alice) (rq_sender bob) = Some (new_pending alice)"
    using placed_pairs [OF served_inv(1) assms(2), of "rq_sender bob"] valid assms(4) by (simp add: served_snoc)
  then have w: "pair_of (requests (served ?rs)) (rq_sender alice) (rq_sender bob) = Some (new_pending alice)"
    using pending_persists_served [of "hist @ [alice]" mid] valid mid by simp
  then have waits: "waits_for (served ?rs) (rq_now bob) (rq_sender alice) (rq_sender bob)"
    using assms(6) by (simp add: waits_for_def)
  have "lost_session bob (served ?rs) = None" using assms(1) by (intro no_lost_session) blast+
  from waiting_matched [OF valid this waits assms(5)] obtain q where q: "q \<in> set ?rs" "mutual q bob"
    "snd (handle_request bob (served ?rs)) = match_of q bob"
    "if \<exists>p \<in> set ?earlier. waits_for (served ?rs) (rq_now bob) p (rq_sender bob)
      then rq_sender q \<in> set ?earlier \<and> waits_for (served ?rs) (rq_now bob) (rq_sender q) (rq_sender bob)
      else rq_sender q = rq_sender alice"
    "pair_of (requests (served ?rs)) (rq_sender q) (rq_sender bob) = Some (new_pending q)" .
  have "match_of q bob = match_of alice bob" if "rq_sender q = rq_sender alice"
    using q(5) w that by (simp add: match_of_def new_pending_def)
  then show ?thesis using q(1-4) by (auto simp: Let_def simp del: append_Cons split: if_splits)
qed

text \<open>Carol, whom Bob does not list, asks for Bob between the two.\<close>

definition ex_carol :: request where
  "ex_carol = \<lparr>rq_now = 2 * ns_per_sec, rq_addr = sock4 (Ipv4 3 3 3 3) 7, rq_sender = key_fill 4,
     rq_peers = [key_fill 2, key_fill 1], rq_session = 10\<rparr>"

lemma ex_carol_sel [simp]:
  "rq_now ex_carol = 2 * ns_per_sec" "rq_sender ex_carol = key_fill 4" "rq_peers ex_carol = [key_fill 2, key_fill 1]"
  "rq_session ex_carol = 10" "valid_request ex_carol"
  by (simp_all add: ex_carol_def valid_request_def)

theorem rendezvous_witness:
  "snd (handle_request ex_bob (served ([] @ ex_alice # [ex_carol]))) = match_of ex_alice ex_bob"
proof -
  have fresh: "is_fresh (rq_now ex_carol) (new_pending ex_alice)" "is_fresh (rq_now ex_bob) (new_pending ex_alice)"
    by (simp_all add: is_fresh_def time_simps REQUEST_TIMEOUT_S_def)
  have "\<not> waits_for (served ([] @ ex_alice # [ex_carol])) now (key_fill 3) (key_fill 2)" for now
  proof -
    have "from_history (rev [ex_alice, ex_carol]) (abs_state (served ([] @ ex_alice # [ex_carol])))"
      using served_inv(2) [of "[ex_alice, ex_carol]"] by simp
    from from_history_pairD [OF this] show ?thesis by (fastforce simp: waits_for_def abs_state_pairs)
  qed
  moreover have "snd (handle_request ex_alice (served [])) = []" using ex_alice_placed by (simp add: served_def)
  ultimately show ?thesis
    using rendezvous [of "[]" ex_alice "[ex_carol]" ex_bob] fresh by (simp add: Let_def)
qed


text \<open>Unless the server takes the request for a retransmission (a lost notification), the requests
  its sender placed before are invalidated: afterwards the sender waits for exactly the peers
  it lists, or for nobody when it was matched.\<close>

lemma previous_requests_replaced:
  assumes "udp_wf st" and "lost_session r st = None"
  shows "pair_of (requests (fst (handle_request r st))) (rq_sender r) b =
    (if snd (handle_request r st) = [] \<and> b \<in> set (rq_peers r) then Some (new_pending r) else None)"
proof -
  have "sp_pairs (fst (spec_request r (abs_state st))) (rq_sender r, b) =
      (if snd (spec_request r (abs_state st)) = [] \<and> b \<in> set (rq_peers r) then Some (new_pending r) else None)"
    unfolding spec_request_match [OF assms(2)]
    by (auto simp: spec_match_def Let_def split: option.split)
  then show ?thesis
    by (simp add: abs_state_pairs out_handle_request [OF assms(1)] flip: abs_handle_request [OF assms(1)])
qed

lemma previous_requests_replaced_witness:
  "pair_of (requests (fst (handle_request ex_alice udp_state_new))) (rq_sender ex_alice) (key_fill 2) =
    (if snd (handle_request ex_alice udp_state_new) = [] \<and> key_fill 2 \<in> set (rq_peers ex_alice)
     then Some (new_pending ex_alice) else None)"
  by (rule previous_requests_replaced [OF udp_wf_new]) (simp add: lost_session_def udp_state_new_def)

subsection \<open>Lost notifications\<close>

text \<open>
  A match records, under the key of the client that completed it, the session id of the
  \<^emph>\<open>other\<close> client; \<open>handle_request\<close> later compares it with the session id the client itself
  sends. So a client that retransmits its own session after a match is not recognised.
\<close>

lemma lost_needs_peer_session:
  assumes "\<forall>q \<in> set rs. valid_request q"
    and "(dst, LostConnectionRequest k a) \<in> set (snd (handle_request r (served rs)))"
  shows "\<exists>q \<in> set rs. \<exists>r' \<in> set rs. rq_sender r' = rq_sender r \<and> mutual q r'
    \<and> k = rq_sender q \<and> a = rq_addr q \<and> rq_session q = rq_session r"
proof (cases rule: handle_request_out_cases [OF served_inv [OF assms(1)], of r, case_names silent lost matched])
  case (lost s)
  have "sp_sessions (abs_state (served rs)) (rq_sender r) = Some s" using lost(1) by simp
  from from_history_sessionD [OF served_inv(2) [OF assms(1)] this]
  obtain q r' where q: "q \<in> set rs" "r' \<in> set rs" and s: "s = session_of (new_pending q)"
    and r': "rq_sender r' = rq_sender r" "mutual q r'" unfolding set_rev by blast
  from lost(3) assms(2) have "k = as_remote_peer s" "a = as_remote_addr s" by simp_all
  with lost(2) have "k = rq_sender q \<and> a = rq_addr q \<and> rq_session q = rq_session r"
    by (simp add: s session_of_def)
  with q r' show ?thesis by blast
qed (use assms(2) in \<open>auto simp: to_original_def to_new_def\<close>)

text \<open>C33: Retransmissions go undetected: if different clients never use the same session id (they are
  random) and no client asks for itself, the server never sends a lost notification, in
  particular not to a client that repeats a session id it already used in a match.\<close>

theorem retransmission_undetected:
  assumes "\<forall>q \<in> set rs. valid_request q \<and> rq_sender q \<notin> set (rq_peers q)"
    and "\<forall>q \<in> set rs. \<forall>q' \<in> set (r # rs). rq_session q = rq_session q' \<longrightarrow> rq_sender q = rq_sender q'"
  shows "(dst, LostConnectionRequest k a) \<notin> set (snd (handle_request r (served rs)))"
proof
  assume "(dst, LostConnectionRequest k a) \<in> set (snd (handle_request r (served rs)))"
  moreover have "\<forall>q \<in> set rs. valid_request q" using assms(1) by simp
  ultimately obtain q r' where q: "q \<in> set rs" "r' \<in> set rs" "rq_sender r' = rq_sender r" "mutual q r'"
    and sid: "rq_session q = rq_session r"
    using lost_needs_peer_session [of rs dst k a r] by auto
  have "r \<in> set (r # rs)" by simp
  with assms(2) q(1) sid have "rq_sender q = rq_sender r" by blast
  with q have "rq_sender q \<in> set (rq_peers q)" by (simp add: mutual_def)
  with assms(1) q(1) show False by blast
qed

theorem retransmission_undetected_witness:
  "(rq_addr ex_bob, LostConnectionRequest (key_fill 1) (rq_addr ex_alice))
     \<notin> set (snd (handle_request ex_bob (served [ex_alice, ex_bob])))"
  by (rule retransmission_undetected) simp_all

subsection \<open>Datagrams\<close>

lemma handle_datagram_cases:
  assumes "handle_datagram ch ed utc now src msg st = Ok (st', out)"
  obtains (ignored) "st' = st" "out = []"
  | (served) addr peers sid k t where "src = SockV4 addr"
      "signed_try_parse ch ed msg = Ok (ConnectionRequest peers sid, k, t)"
      "\<bar>diff_seconds ch utc t\<bar> \<le> SIGNED_MSG_VALID_S"
      "st' = fst (handle_request \<lparr>rq_now = now, rq_addr = addr, rq_sender = k, rq_peers = peers, rq_session = sid\<rparr> st)"
      "out = map (\<lambda>(dst, m). (dst, from_server_to_bytes m))
        (snd (handle_request \<lparr>rq_now = now, rq_addr = addr, rq_sender = k, rq_peers = peers, rq_session = sid\<rparr> st))"
proof (cases src)
  case (SockV6 a)
  with assms ignored show ?thesis by (simp add: handle_datagram_def)
next
  case (SockV4 addr)
  show ?thesis
  proof (cases "signed_try_parse ch ed msg")
    case (Ok res)
    obtain peers sid k t where res: "res = (ConnectionRequest peers sid, k, t)"
      by (metis prod_cases3 to_server_signed.exhaust)
    show ?thesis
    proof (cases "\<bar>diff_seconds ch utc t\<bar> > SIGNED_MSG_VALID_S")
      case True
      with assms SockV4 Ok res ignored show ?thesis by (simp add: handle_datagram_def)
    next
      case False
      with assms SockV4 Ok res served [of addr peers sid k t] show ?thesis
        by (auto simp: handle_datagram_def Let_def case_prod_unfold)
    qed
  qed (use assms SockV4 ignored in \<open>simp_all add: handle_datagram_def\<close>)
qed

lemma handle_datagram_not_Panic: "handle_datagram ch ed utc now src msg st \<noteq> Panic"
  using signed_try_parse_not_Panic [of ch ed msg]
  by (auto simp: handle_datagram_def Let_def split: socket_addr.splits res.splits prod.splits
      to_server_signed.splits)

lemma handle_datagram_ok: "\<exists>st' out. handle_datagram ch ed utc now src msg st = Ok (st', out)"
proof (cases "handle_datagram ch ed utc now src msg st")
  case (Err e)
  then show ?thesis
    by (auto simp: handle_datagram_def Let_def split: socket_addr.splits res.splits prod.splits
        to_server_signed.splits if_splits)
qed (use handle_datagram_not_Panic [of ch ed utc now src msg st] in auto)

lemma udp_wf_handle_datagram:
  assumes "udp_wf st" and "handle_datagram ch ed utc now src msg st = Ok (st', out)"
  shows "udp_wf st'"
  using assms(2)
proof (cases rule: handle_datagram_cases)
  case ignored
  with assms(1) show ?thesis by simp
next
  case (served addr peers sid k t)
  then have "0 < length peers \<and> length peers \<le> 10"
    using payload_try_parse_bounds by (auto simp: signed_try_parse_raw)
  with served assms(1) show ?thesis by (auto intro!: udp_wf_handle_request)
qed

text \<open>A request a client sends is the same request when the server handles it.\<close>

lemma request_datagram_handled:
  assumes "chrono_ok ch" and "ed25519_ok ed"
    and "signed_to_bytes ch ed utc\<^sub>0 key (ConnectionRequest ks sid) = Ok datagram"
    and "from_timestamp_millis ch (timestamp_millis ch utc\<^sub>0) = Some d" and "\<bar>diff_seconds ch utc d\<bar> \<le> 30"
  shows "handle_datagram ch ed utc now (SockV4 addr) datagram sv =
    (let (sv', out) = handle_request
       \<lparr>rq_now = now, rq_addr = addr, rq_sender = verifying_key ed key, rq_peers = ks, rq_session = sid\<rparr> sv
     in Ok (sv', map (\<lambda>(dst, m). (dst, from_server_to_bytes m)) out))"
proof -
  note signed_message_parses [OF assms(1,2,4,3)]
  with assms(5) show ?thesis by (simp add: handle_datagram_def SIGNED_MSG_VALID_S_def)
qed

lemma length_handle_request_out: "length (snd (handle_request r st)) \<le> 2"
  by (simp add: handle_request_eq Let_def split: option.split)

text \<open>Alice's request as a datagram.\<close>

lemma ex_datagram_handled:
  "handle_datagram chrono_ms ed25519_plain 7 0 (SockV4 (sock4 (Ipv4 1 2 3 4) 5)) ex_datagram st =
    Ok (fst (handle_request ex_alice st),
        map (\<lambda>(dst, m). (dst, from_server_to_bytes m)) (snd (handle_request ex_alice st)))"
  by (simp add: handle_datagram_def ex_datagram_parses SIGNED_MSG_VALID_S_def ex_datagram_age Let_def
      case_prod_unfold flip: ex_alice_def)

text \<open>C10: Only an authenticated datagram has an effect: if the server's state changes or anything is
  sent, the datagram came from an IPv4 source, is a version 2 frame whose signature by its
  key covers its timestamp and payload, and its timestamp is at most thirty whole seconds
  from the server's clock.\<close>

theorem effects_need_signature:
  assumes "chrono_ok ch" and "handle_datagram ch ed utc now src msg st = Ok (st', out)"
    and "st' \<noteq> st \<or> out \<noteq> []"
  shows "\<exists>addr k t payload sig. src = SockV4 addr
    \<and> msg = raw_to_bytes ch (SignedMessage k t payload sig)
    \<and> key_valid ed k \<and> sig_verifies ed k (signed_part ch t payload) sig
    \<and> \<bar>diff_seconds ch utc t\<bar> \<le> 30"
  using assms(2)
proof (cases rule: handle_datagram_cases)
  case ignored
  with assms(3) show ?thesis by simp
next
  case (served addr peers sid k t)
  from served(2) obtain payload sig where "msg = raw_to_bytes ch (SignedMessage k t payload sig)"
    "key_valid ed k" "sig_verifies ed k (signed_part ch t payload) sig"
    unfolding signed_try_parse_eq_Ok [OF assms(1)] by blast
  with served(1,3) show ?thesis by (auto simp: SIGNED_MSG_VALID_S_def)
qed

theorem effects_need_signature_witness:
  "\<exists>addr k t payload sig. SockV4 (sock4 (Ipv4 1 2 3 4) 5) = SockV4 addr
    \<and> ex_datagram = raw_to_bytes chrono_ms (SignedMessage k t payload sig)
    \<and> key_valid ed25519_plain k \<and> sig_verifies ed25519_plain k (signed_part chrono_ms t payload) sig
    \<and> \<bar>diff_seconds chrono_ms 7 t\<bar> \<le> 30"
  by (rule effects_need_signature [OF chrono_ms_ok ex_datagram_handled [of udp_state_new]])
    (unfold ex_alice_placed, simp add: udp_state_new_def)

text \<open>C34: The signature does not cover the source address: a copy of an accepted datagram sent from
  another address, while its timestamp is valid, is accepted too, and when it does not
  complete a match the sender's pending requests then point to that other address.\<close>

theorem replay_redirects:
  assumes "udp_wf st" and "signed_try_parse ch ed msg = Ok (ConnectionRequest peers sid, k, t)"
    and "\<bar>diff_seconds ch utc t\<bar> \<le> 30"
    and "handle_datagram ch ed utc now (SockV4 other) msg st = Ok (st', [])" and "b \<in> set peers"
  shows "\<exists>p. pair_of (requests st') k b = Some p \<and> requester_addr p = other"
proof -
  let ?r = "\<lparr>rq_now = now, rq_addr = other, rq_sender = k, rq_peers = peers, rq_session = sid\<rparr>"
  from assms(2-4) have "st' = fst (handle_request ?r st)" "snd (handle_request ?r st) = []"
    by (auto simp: handle_datagram_def SIGNED_MSG_VALID_S_def Let_def case_prod_unfold)
  then show ?thesis
    using placed_pairs [OF assms(1), of ?r b] assms(5) by simp
qed

theorem replay_redirects_witness:
  "\<exists>p. pair_of (requests (fst (handle_request (ex_alice\<lparr>rq_addr := sock4 (Ipv4 9 9 9 9) 9\<rparr>)
        (fst (handle_request ex_alice udp_state_new))))) (key_fill 1) (key_fill 2) = Some p
     \<and> requester_addr p = sock4 (Ipv4 9 9 9 9) 9"
proof (rule replay_redirects [OF _ ex_datagram_parses])
  show "udp_wf (fst (handle_request ex_alice udp_state_new))"
    by (rule udp_wf_handle_request [OF udp_wf_new]) simp_all
  show "\<bar>diff_seconds chrono_ms 7 5\<bar> \<le> 30" by (simp add: ex_datagram_age)
  let ?r = "ex_alice\<lparr>rq_addr := sock4 (Ipv4 9 9 9 9) 9\<rparr>"
  have r: "?r = \<lparr>rq_now = 0, rq_addr = sock4 (Ipv4 9 9 9 9) 9, rq_sender = key_fill 1,
      rq_peers = [key_fill 2], rq_session = 9\<rparr>"
    by (simp add: ex_alice_def)
  have "snd (handle_request ?r (fst (handle_request ex_alice udp_state_new))) = []"
    unfolding ex_alice_placed
    by (simp add: handle_request_eq Let_def cleanup_def hm_map_values_def hm_retain_def
        lost_session_def pair_of_def hm_get_def is_fresh_def time_simps REQUEST_TIMEOUT_S_def)
  then show "handle_datagram chrono_ms ed25519_plain 7 0 (SockV4 (sock4 (Ipv4 9 9 9 9) 9)) ex_datagram
      (fst (handle_request ex_alice udp_state_new)) =
    Ok (fst (handle_request ?r (fst (handle_request ex_alice udp_state_new))), [])"
    by (simp add: handle_datagram_def ex_datagram_parses SIGNED_MSG_VALID_S_def ex_datagram_age Let_def
        case_prod_unfold flip: r)
qed simp

text \<open>The server is no amplifier: what it sends in response to one datagram is at most 88 bytes
  and never more than the datagram itself.\<close>

lemma no_amplification:
  assumes "handle_datagram ch ed utc now src msg st = Ok (st', out)"
  shows "sum_list (map (\<lambda>(dst, bs). length bs) out) \<le> 88
    \<and> sum_list (map (\<lambda>(dst, bs). length bs) out) \<le> length msg"
  using assms
proof (cases rule: handle_datagram_cases)
  case ignored
  then show ?thesis by simp
next
  case (served addr peers sid k t)
  let ?ms = "snd (handle_request \<lparr>rq_now = now, rq_addr = addr, rq_sender = k, rq_peers = peers, rq_session = sid\<rparr> st)"
  have "sum_list (map (\<lambda>(dst, bs). length bs) out) =
      sum_list (map (\<lambda>(dst, m). length (from_server_to_bytes m)) ?ms)"
    by (simp add: served(5) o_def case_prod_unfold)
  also have "\<dots> \<le> sum_list (map (\<lambda>_. 44) ?ms)"
    by (intro sum_list_mono) (auto simp: length_from_server_to_bytes split: from_server.split)
  also have "\<dots> \<le> 88"
    using length_handle_request_out [of _ st] by (simp add: map_replicate_const sum_list_replicate)
  finally have "sum_list (map (\<lambda>(dst, bs). length bs) out) \<le> 88" .
  moreover have "112 \<le> length msg"
    using signed_try_parse_length [OF served(2)] by simp
  ultimately show ?thesis by simp
qed

lemma no_amplification_witness:
  "sum_list (map (\<lambda>(dst, bs). length bs)
     (map (\<lambda>(dst, m). (dst, from_server_to_bytes m)) (snd (handle_request ex_alice udp_state_new)))) \<le> 88
   \<and> sum_list (map (\<lambda>(dst, bs). length bs)
     (map (\<lambda>(dst, m). (dst, from_server_to_bytes m)) (snd (handle_request ex_alice udp_state_new))))
       \<le> length ex_datagram"
  by (rule no_amplification [OF ex_datagram_handled])

text \<open>The datagrams handled one after the other, with what is sent for each.\<close>

definition handle_event ::
  "'dt chrono \<Rightarrow> 'sk ed25519 \<Rightarrow> udp_state \<times> (sockaddr_v4 \<times> bytes) list \<Rightarrow> 'dt udp_event \<Rightarrow>
   udp_state \<times> (sockaddr_v4 \<times> bytes) list" where
  "handle_event ch ed acc e = (case e of
      Datagram utc now src msg \<Rightarrow>
        (case handle_datagram ch ed utc now src msg (fst acc) of Ok (st', out) \<Rightarrow> (st', snd acc @ out) | _ \<Rightarrow> acc)
    | _ \<Rightarrow> acc)"

lemma handle_event_Datagram:
  "handle_datagram ch ed utc now src msg st = Ok (st', out) \<Longrightarrow>
    handle_event ch ed (st, sent) (Datagram utc now src msg) = (st', sent @ out)"
  by (simp add: handle_event_def)

lemma handle_event_acc: "handle_event ch ed (st, sent) e = map_prod id ((@) sent) (handle_event ch ed (st, []) e)"
  by (auto simp: handle_event_def split: udp_event.split res.split)

lemma handle_events_acc:
  "foldl (handle_event ch ed) (st, sent) es = map_prod id ((@) sent) (foldl (handle_event ch ed) (st, []) es)"
proof (induction es arbitrary: st sent)
  case (Cons e es)
  obtain st' out where e: "handle_event ch ed (st, []) e = (st', out)" by fastforce
  then have "handle_event ch ed (st, sent) e = (st', sent @ out)" using handle_event_acc [of ch ed st sent e] by simp
  with e Cons.IH [of st' "sent @ out"] Cons.IH [of st' out] show ?case
    by (cases "foldl (handle_event ch ed) (st', []) es") simp
qed simp

lemma udp_server_loop_fold:
  "udp_server_loop ch ed es st =
    Ok (ShutdownSignal \<in> set es, foldl (handle_event ch ed) (st, []) (takeWhile (\<lambda>e. e \<noteq> ShutdownSignal) es))"
proof (induction es arbitrary: st)
  case (Cons e es)
  show ?case
  proof (cases e)
    case (Datagram utc now src msg)
    obtain st' out where h: "handle_datagram ch ed utc now src msg st = Ok (st', out)"
      using handle_datagram_ok [of ch ed utc now src msg st] by blast
    with Cons.IH [of st'] handle_events_acc [of ch ed st' out "takeWhile (\<lambda>e. e \<noteq> ShutdownSignal) es"] show ?thesis
      by (simp add: Datagram handle_event_Datagram [OF h] case_prod_unfold map_prod_def)
  qed (use Cons in \<open>simp_all add: handle_event_def\<close>)
qed simp

lemma udp_wf_handle_events: "udp_wf (fst acc) \<Longrightarrow> udp_wf (fst (foldl (handle_event ch ed) acc es))"
proof (induction es arbitrary: acc)
  case (Cons e es)
  have "udp_wf (fst (handle_event ch ed acc e))"
    using Cons.prems udp_wf_handle_datagram
    by (auto simp: handle_event_def split: udp_event.split res.split)
  with Cons.IH show ?case by simp
qed simp

text \<open>C40: The server handles every datagram that it receives before the shutdown signal, in order, and
  nothing after it. It panics only if its socket cannot be bound; no datagram and no receive error
  stops it; it has ended exactly if the signal came; and its state stays well formed.\<close>

theorem server_never_crashes:
  "run_udp_server bound ch ed es =
     (if bound
      then Ok (ShutdownSignal \<in> set es,
        foldl (handle_event ch ed) (udp_state_new, []) (takeWhile (\<lambda>e. e \<noteq> ShutdownSignal) es))
      else Panic)
   \<and> (\<forall>utc now src msg st. \<exists>st' out. handle_datagram ch ed utc now src msg st = Ok (st', out))
   \<and> udp_wf (fst (foldl (handle_event ch ed) (udp_state_new, []) es))"
  by (intro conjI allI handle_datagram_ok udp_wf_handle_events)
    (simp_all add: run_udp_server_def udp_server_loop_fold udp_wf_new)

end
