(* ===== verification/Interface_Tracker.thy ===== *)
theory Interface_Tracker
  imports Net_Types
begin

text \<open>
  \<open>src/p2p_interface_tracker.rs\<close>: which network interface the clients bind to. The
  interfaces present are those of the crate \<open>multicast_discovery_socket\<close> (its
  \<open>InterfaceTracker\<close>), so one poll is given their list, in the order its iterator has them.
\<close>

subsection \<open>Interfaces\<close>

text \<open>\<open>if_addrs::Interface\<close>, the fields the code reads.\<close>

datatype if_addr =
    IfV4 (ifv4_ip: ipv4) (ifv4_prefixlen: u8)
  | IfV6 (ifv6_ip: "128 word") (ifv6_prefixlen: u8)

record interface =
  if_name :: string
  if_addr :: if_addr
  is_p2p :: bool

fun if_ip :: "if_addr \<Rightarrow> ip_addr" where
  "if_ip (IfV4 a _) = IpV4 a"
| "if_ip (IfV6 a _) = IpV6 a"

abbreviation ip_of :: "interface \<Rightarrow> ip_addr" where
  "ip_of i \<equiv> if_ip (if_addr i)"

record interface_tracker =
  prev_interface :: string

definition tracker_new :: interface_tracker where
  "tracker_new = \<lparr>prev_interface = ''''\<rparr>"

text \<open>\<open>str::starts_with\<close>.\<close>

fun starts_with :: "string \<Rightarrow> string \<Rightarrow> bool" where
  "starts_with s [] = True"
| "starts_with [] (p # ps) = False"
| "starts_with (c # s) (p # ps) = (c = p \<and> starts_with s ps)"

lemma starts_with_iff: "starts_with s p \<longleftrightarrow> take (length p) s = p"
  by (induction s p rule: starts_with.induct) auto

subsection \<open>Filter and priority\<close>

definition is_prefix32 :: "if_addr \<Rightarrow> bool" where
  "is_prefix32 a = (case a of IfV4 _ n \<Rightarrow> n = 32 | IfV6 _ _ \<Rightarrow> False)"

definition skipped :: "interface \<Rightarrow> bool" where
  "skipped i \<longleftrightarrow>
     is_p2p i \<or> is_ipv6 (ip_of i) \<or> is_prefix32 (if_addr i)
     \<or> starts_with (if_name i) ''lo'' \<or> starts_with (if_name i) ''docker''
     \<or> starts_with (if_name i) ''br-'' \<or> starts_with (if_name i) ''veth''
     \<or> starts_with (if_name i) ''tun'' \<or> starts_with (if_name i) ''tap''
     \<or> starts_with (if_name i) ''wg'' \<or> starts_with (if_name i) ''tailscale''
     \<or> starts_with (if_name i) ''amn''
     \<or> starts_with (if_name i) ''AmneziaVPN'' \<or> starts_with (if_name i) ''Tailscale''
     \<or> starts_with (if_name i) ''ZeroTier'' \<or> starts_with (if_name i) ''outline''"

definition if_priority :: "interface \<Rightarrow> nat" where
  "if_priority i =
    (if starts_with (if_name i) ''en'' \<or> starts_with (if_name i) ''eth''
        \<or> starts_with (if_name i) ''Ethernet'' then 3
     else if starts_with (if_name i) ''wl'' \<or> starts_with (if_name i) ''Wireless'' then 2
     else 1)"

subsection \<open>The scan\<close>

text \<open>One pass of the loop body over \<open>(best_interface, highest_priority)\<close>.\<close>

definition scan_step :: "interface option \<times> nat \<Rightarrow> interface \<Rightarrow> interface option \<times> nat" where
  "scan_step acc i =
    (if skipped i then acc else
     let (best, highest) = acc;
         current = if_priority i;
         (best, highest) = (if current > highest then (Some i, current) else (best, highest))
     in if current = highest
        then (case best of
                Some prev_best \<Rightarrow> (if ip_of i > ip_of prev_best then (Some i, highest) else (best, highest))
              | None \<Rightarrow> (best, highest))
        else (best, highest))"

definition best_of :: "interface list \<Rightarrow> interface option" where
  "best_of is = fst (foldl scan_step (None, 0) is)"

text \<open>\<open>current_interface\<close>, with the interfaces of this poll; the messages it logs are left out.\<close>

definition current_interface ::
  "interface list \<Rightarrow> interface_tracker \<Rightarrow> interface option \<times> interface_tracker" where
  "current_interface is tr =
    (let best = best_of is in
     (best, (case best of Some i \<Rightarrow> tr\<lparr>prev_interface := if_name i\<rparr> | None \<Rightarrow> tr)))"

subsection \<open>Specification\<close>

text \<open>An interface is ranked by its priority, then by its address.\<close>

definition rank_less :: "interface \<Rightarrow> interface \<Rightarrow> bool" where
  "rank_less i j \<longleftrightarrow> if_priority i < if_priority j
     \<or> if_priority i = if_priority j \<and> ip_of i < ip_of j"

definition usable :: "interface list \<Rightarrow> interface list" where
  "usable is = filter (\<lambda>i. \<not> skipped i) is"

text \<open>The loop invariant: the best so far is the first of the highest rank.\<close>

definition scanned :: "interface list \<Rightarrow> interface option \<times> nat \<Rightarrow> bool" where
  "scanned is acc \<longleftrightarrow> (case acc of
      (None, h) \<Rightarrow> h = 0 \<and> usable is = []
    | (Some b, h) \<Rightarrow> h = if_priority b \<and> b \<in> set (usable is)
        \<and> (\<forall>i \<in> set (usable is). \<not> rank_less b i)
        \<and> find (\<lambda>i. \<not> rank_less i b) (usable is) = Some b)"

lemma if_priority_pos [simp]: "0 < if_priority i"
  by (simp add: if_priority_def)

lemma rank_less_trans: "rank_less i j \<Longrightarrow> rank_less j k \<Longrightarrow> rank_less i k"
  by (auto simp: rank_less_def)

lemma rank_less_linear: "\<not> rank_less i j \<Longrightarrow> \<not> rank_less j i \<Longrightarrow> if_priority i = if_priority j \<and> ip_of i = ip_of j"
  by (auto simp: rank_less_def not_less_iff_gr_or_eq)

lemma lex_le_less_trans:
  fixes p q r :: nat and a b c :: "'a::linorder"
  assumes "\<not> (p < q \<or> p = q \<and> a < b)" and "p < r \<or> p = r \<and> a < c"
  shows "q < r \<or> q = r \<and> b < c"
  using assms by (cases p q rule: linorder_cases) auto

lemma rank_le_less_trans: "\<not> rank_less b j \<Longrightarrow> rank_less b i \<Longrightarrow> rank_less j i"
  unfolding rank_less_def by (rule lex_le_less_trans)

lemma rank_less_irrefl [simp]: "\<not> rank_less i i"
  by (simp add: rank_less_def)

lemma find_append: "find P (xs @ ys) = (case find P xs of Some x \<Rightarrow> Some x | None \<Rightarrow> find P ys)"
  by (induction xs) auto

lemma scan_step_Some:
  "\<not> skipped i \<Longrightarrow> scan_step (Some b, if_priority b) i =
     (if rank_less b i then (Some i, if_priority i) else (Some b, if_priority b))"
  by (auto simp: scan_step_def Let_def rank_less_def)

lemma scan_step_None: "\<not> skipped i \<Longrightarrow> scan_step (None, 0) i = (Some i, if_priority i)"
  by (simp add: scan_step_def Let_def)

lemma scanned_skipped: "skipped i \<Longrightarrow> scanned is acc \<Longrightarrow> scanned (is @ [i]) (scan_step acc i)"
proof -
  assume "skipped i" and sc: "scanned is acc"
  then have u: "usable (is @ [i]) = usable is" and "scan_step acc i = acc"
    by (simp_all add: usable_def scan_step_def)
  with sc show ?thesis unfolding scanned_def u by simp
qed

lemma scanned_better:
  assumes "\<not> skipped i" and "rank_less b i" and "\<forall>j \<in> set (usable is). \<not> rank_less b j"
  shows "scanned (is @ [i]) (Some i, if_priority i)"
proof -
  have below: "rank_less j i" if "j \<in> set (usable is)" for j
    using assms(2,3) that by (blast intro: rank_le_less_trans)
  have up: "\<not> rank_less i j" if "j \<in> set (usable is)" for j
    using below [OF that] rank_less_trans [of i j i] by auto
  from below have "find (\<lambda>j. \<not> rank_less j i) (usable is) = None" by (simp add: find_None_iff)
  moreover have "usable (is @ [i]) = usable is @ [i]" using assms(1) by (simp add: usable_def)
  ultimately show ?thesis using up by (simp add: scanned_def find_append)
qed

lemma scanned_step:
  assumes "scanned is acc"
  shows "scanned (is @ [i]) (scan_step acc i)"
proof (cases "skipped i")
  case True
  with assms show ?thesis by (rule scanned_skipped [rotated])
next
  case False
  then have u: "usable (is @ [i]) = usable is @ [i]" by (simp add: usable_def)
  show ?thesis
  proof (cases "fst acc")
    case None
    then have "acc = (None, 0)" "usable is = []"
      using assms by (cases acc; auto simp: scanned_def)+
    then show ?thesis using False u by (simp add: scan_step_None scanned_def)
  next
    case (Some b)
    then have acc: "acc = (Some b, if_priority b)" and max: "\<forall>j \<in> set (usable is). \<not> rank_less b j"
      and b: "b \<in> set (usable is)" "find (\<lambda>j. \<not> rank_less j b) (usable is) = Some b"
      using assms by (cases acc; auto simp: scanned_def)+
    show ?thesis
      using scanned_better [OF False _ max] False u b max by (simp add: acc scan_step_Some scanned_def find_append)
  qed
qed

lemma scanned_best: "scanned is (foldl scan_step (None, 0) is)"
proof (induction "is" rule: rev_induct)
  case Nil
  then show ?case by (simp add: scanned_def usable_def)
next
  case (snoc i "is")
  then show ?case by (simp add: scanned_step)
qed

subsection \<open>Properties\<close>

text \<open>C31: The chosen interface is the best usable one: it passed the filter, no usable interface has
  a higher priority or the same priority and a higher address, and of equally ranked ones it
  is the first. None is chosen exactly when every interface is filtered out.\<close>

theorem current_interface_best:
  "(fst (current_interface is tr) = None \<longleftrightarrow> (\<forall>i \<in> set is. skipped i)) \<and>
   (\<forall>b. fst (current_interface is tr) = Some b \<longrightarrow>
      b \<in> set is \<and> \<not> skipped b \<and> (\<forall>i \<in> set is. skipped i \<or> \<not> rank_less b i)
      \<and> find (\<lambda>i. \<not> skipped i \<and> \<not> rank_less i b) is = Some b)"
proof -
  have s: "scanned is (foldl scan_step (None, 0) is)" by (rule scanned_best)
  have f: "find (\<lambda>i. \<not> rank_less i b) (usable is) = find (\<lambda>i. \<not> skipped i \<and> \<not> rank_less i b) is" for b
    by (induction "is") (auto simp: usable_def)
  have c: "fst (current_interface is tr) = fst (foldl scan_step (None, 0) is)"
    by (simp add: current_interface_def best_of_def Let_def)
  show ?thesis
  proof (cases "fst (foldl scan_step (None, 0) is)")
    case None
    with s have "usable is = []" by (auto simp: scanned_def split: prod.splits)
    with None c show ?thesis by (auto simp: usable_def filter_empty_conv)
  next
    case (Some b)
    with s have "b \<in> set (usable is)" "\<forall>i \<in> set (usable is). \<not> rank_less b i"
      "find (\<lambda>i. \<not> rank_less i b) (usable is) = Some b"
      by (auto simp: scanned_def split: prod.splits)
    with Some c f show ?thesis by (auto simp: usable_def)
  qed
qed

theorem current_interface_best_witness:
  "(fst (current_interface [\<lparr>if_name = ''lo'', if_addr = IfV4 (Ipv4 127 0 0 1) 8, is_p2p = False\<rparr>] tracker_new) = None
      \<longleftrightarrow> (\<forall>i \<in> set [\<lparr>if_name = ''lo'', if_addr = IfV4 (Ipv4 127 0 0 1) 8, is_p2p = False\<rparr>]. skipped i))
   \<and> (\<exists>b. fst (current_interface
        [\<lparr>if_name = ''wlp4s0'', if_addr = IfV4 (Ipv4 10 0 0 7) 24, is_p2p = False\<rparr>,
         \<lparr>if_name = ''enp3s0'', if_addr = IfV4 (Ipv4 10 0 0 5) 24, is_p2p = False\<rparr>] tracker_new) = Some b
      \<and> \<not> skipped b)"
proof (rule conjI)
  let ?is = "[\<lparr>if_name = ''wlp4s0'', if_addr = IfV4 (Ipv4 10 0 0 7) 24, is_p2p = False\<rparr>,
         \<lparr>if_name = ''enp3s0'', if_addr = IfV4 (Ipv4 10 0 0 5) 24, is_p2p = False\<rparr>]"
  show "fst (current_interface [\<lparr>if_name = ''lo'', if_addr = IfV4 (Ipv4 127 0 0 1) 8, is_p2p = False\<rparr>] tracker_new) = None
      \<longleftrightarrow> (\<forall>i \<in> set [\<lparr>if_name = ''lo'', if_addr = IfV4 (Ipv4 127 0 0 1) 8, is_p2p = False\<rparr>]. skipped i)"
    using current_interface_best by blast
  have "fst (current_interface ?is tracker_new) =
      Some \<lparr>if_name = ''enp3s0'', if_addr = IfV4 (Ipv4 10 0 0 5) 24, is_p2p = False\<rparr>"
    by (simp add: current_interface_def best_of_def scan_step_def skipped_def if_priority_def Let_def
        is_prefix32_def)
  with current_interface_best [of ?is tracker_new]
  show "\<exists>b. fst (current_interface ?is tracker_new) = Some b \<and> \<not> skipped b" by blast
qed

text \<open>C32: The choice does not depend on the order in which the interfaces are listed, as long as usable
  interfaces of the same priority have different addresses.\<close>

theorem current_interface_stable:
  assumes "set is = set js"
    and "\<forall>i \<in> set is. \<forall>j \<in> set is. \<not> skipped i \<and> \<not> skipped j \<and> if_priority i = if_priority j
      \<and> ip_of i = ip_of j \<longrightarrow> i = j"
  shows "current_interface is tr = current_interface js tr"
proof -
  have "best_of is = best_of js"
  proof (cases "best_of is"; cases "best_of js")
    fix b assume "best_of is = None" "best_of js = Some b"
    with scanned_best [of "is"] scanned_best [of js] assms(1) show ?thesis
      by (auto simp: best_of_def scanned_def usable_def filter_empty_conv split: prod.splits)
  next
    fix b assume "best_of is = Some b" "best_of js = None"
    with scanned_best [of "is"] scanned_best [of js] assms(1) show ?thesis
      by (auto simp: best_of_def scanned_def usable_def filter_empty_conv split: prod.splits)
  next
    fix b c assume bc: "best_of is = Some b" "best_of js = Some c"
    then have "b \<in> set (usable is)" "\<forall>i \<in> set (usable is). \<not> rank_less b i"
      "c \<in> set (usable js)" "\<forall>i \<in> set (usable js). \<not> rank_less c i"
      using scanned_best [of "is"] scanned_best [of js]
      by (auto simp: best_of_def scanned_def split: prod.splits)
    moreover have "set (usable is) = set (usable js)" using assms(1) by (simp add: usable_def)
    ultimately have "b = c"
      using rank_less_linear [of b c] assms by (simp add: usable_def)
    with bc show ?thesis by simp
  qed simp
  then show ?thesis by (simp add: current_interface_def)
qed

theorem current_interface_stable_witness:
  "current_interface
      [\<lparr>if_name = ''eth0'', if_addr = IfV4 (Ipv4 10 0 0 7) 24, is_p2p = False\<rparr>,
       \<lparr>if_name = ''eth1'', if_addr = IfV4 (Ipv4 10 0 0 5) 24, is_p2p = False\<rparr>] tracker_new =
   current_interface
      [\<lparr>if_name = ''eth1'', if_addr = IfV4 (Ipv4 10 0 0 5) 24, is_p2p = False\<rparr>,
       \<lparr>if_name = ''eth0'', if_addr = IfV4 (Ipv4 10 0 0 7) 24, is_p2p = False\<rparr>] tracker_new"
  by (rule current_interface_stable) auto

text \<open>The interface a poll returns is never IPv6: the branches of the socket code that would meet an
  IPv6 address are unreachable.\<close>

lemma current_interface_v4:
  assumes "fst (current_interface is tr) = Some b"
  obtains a where "ip_of b = IpV4 a"
proof -
  from assms scanned_best [of "is"] have "\<not> skipped b"
    by (auto simp: current_interface_def best_of_def Let_def scanned_def usable_def split: prod.splits)
  then have "\<not> is_ipv6 (ip_of b)" by (simp add: skipped_def)
  with that show ?thesis by (cases "ip_of b") auto
qed

end
