(* ===== verification/Peer_Table.thy ===== *)
theory Peer_Table
  imports Rust_Collections Net_Types
begin

text \<open>
  The trusted peers of a UDP client (\<open>PeerState\<close> and the table operations of
  \<open>UdpConnectionEstablisher\<close>, \<open>src/udp/client.rs\<close>): when discovery of a peer is enabled,
  the back-off after failed hole punches, and the round-robin choice of the at most ten
  peers that one request to the server may name.
\<close>

definition HOLE_PUNCH_FAILED_INITIAL_TIMEOUT_MS :: nat where
  "HOLE_PUNCH_FAILED_INITIAL_TIMEOUT_MS = 100"
definition HOLE_PUNCH_FAILED_MAX_TIMEOUT_MS :: nat where
  "HOLE_PUNCH_FAILED_MAX_TIMEOUT_MS = 5000"

subsection \<open>Peers\<close>

datatype peer_state_kind = ConnectionActive | Enabled | DisabledUntil instant

record peer_state =
  state_kind :: peer_state_kind
  failure_retry_timeout :: duration
  last_accepted_session_id :: "u32 option"

definition is_discovery_enabled :: "instant \<Rightarrow> peer_state \<Rightarrow> bool" where
  "is_discovery_enabled now p = (case state_kind p of
      ConnectionActive \<Rightarrow> False
    | DisabledUntil i \<Rightarrow> i < now
    | Enabled \<Rightarrow> True)"

definition peer_state_default :: peer_state where
  "peer_state_default = \<lparr>state_kind = Enabled,
     failure_retry_timeout = from_millis HOLE_PUNCH_FAILED_INITIAL_TIMEOUT_MS,
     last_accepted_session_id = None\<rparr>"

text \<open>The three assignments after a failed hole punch, and the two after a successful one.\<close>

definition punch_failed :: "instant \<Rightarrow> peer_state \<Rightarrow> peer_state" where
  "punch_failed now p =
    (let p = p\<lparr>state_kind := DisabledUntil (now + failure_retry_timeout p)\<rparr>;
         p = p\<lparr>failure_retry_timeout := failure_retry_timeout p + min (failure_retry_timeout p) (from_secs 1)\<rparr>
     in p\<lparr>failure_retry_timeout :=
          min (failure_retry_timeout p) (from_millis HOLE_PUNCH_FAILED_MAX_TIMEOUT_MS)\<rparr>)"

definition punch_succeeded :: "peer_state \<Rightarrow> peer_state" where
  "punch_succeeded p = p\<lparr>state_kind := ConnectionActive,
     failure_retry_timeout := from_millis HOLE_PUNCH_FAILED_INITIAL_TIMEOUT_MS\<rparr>"

subsection \<open>The table\<close>

text \<open>The two fields of \<open>UdpConnectionEstablisher\<close> these operations use; the client extends it.\<close>

record peer_table =
  trusted_remotes :: "(pubkey, peer_state) btmap"
  last_trusted_peer_offset :: pubkey

text \<open>\<open>entry(key).or_default()\<close>.\<close>

definition or_default :: "pubkey \<Rightarrow> (pubkey, peer_state) btmap \<Rightarrow> (pubkey, peer_state) btmap" where
  "or_default k m = (case bt_get m k of None \<Rightarrow> bt_insert k peer_state_default m | Some _ \<Rightarrow> m)"

definition add_trusted_remote :: "pubkey \<Rightarrow> 'a peer_table_scheme \<Rightarrow> 'a peer_table_scheme" where
  "add_trusted_remote k st = st\<lparr>trusted_remotes := or_default k (trusted_remotes st)\<rparr>"

definition remove_trusted_remote :: "pubkey \<Rightarrow> 'a peer_table_scheme \<Rightarrow> 'a peer_table_scheme" where
  "remove_trusted_remote k st = st\<lparr>trusted_remotes := bt_remove k (trusted_remotes st)\<rparr>"

definition set_trusted_remote_list :: "pubkey list \<Rightarrow> 'a peer_table_scheme \<Rightarrow> 'a peer_table_scheme" where
  "set_trusted_remote_list ks st =
     st\<lparr>trusted_remotes := bt_retain (\<lambda>k _. k \<in> set ks) (fold or_default ks (trusted_remotes st))\<rparr>"

definition on_connection_closed :: "pubkey \<Rightarrow> 'a peer_table_scheme \<Rightarrow> 'a peer_table_scheme" where
  "on_connection_closed k st =
    (let m = or_default k (trusted_remotes st) in
     case bt_get m k of
       Some p \<Rightarrow> st\<lparr>trusted_remotes := bt_insert k (p\<lparr>state_kind := Enabled\<rparr>) m\<rparr>
     | None \<Rightarrow> st)"

text \<open>
  \<open>new_available_remotes_list\<close>: the enabled peers in key order from the offset on, wrapping
  around, the first ten of them; the offset moves to the key after the last one taken.
\<close>

definition new_available_remotes_list ::
  "instant \<Rightarrow> 'a peer_table_scheme \<Rightarrow> pubkey list \<times> 'a peer_table_scheme" where
  "new_available_remotes_list now st =
    (let m = trusted_remotes st;
         iter_forward = bt_range_from (last_trusted_peer_offset st) m;
         iter_wrap = bt_range_to (last_trusted_peer_offset st) m;
         result = map fst (take 10 (filter (\<lambda>(_, s). is_discovery_enabled now s) (iter_forward @ iter_wrap)))
     in (result,
         if result = [] then st
         else let last_key = last result in
           st\<lparr>last_trusted_peer_offset :=
             (case bt_range_above last_key m of
                (k, _) # _ \<Rightarrow> k
              | [] \<Rightarrow> (case bt_keys m of k # _ \<Rightarrow> k | [] \<Rightarrow> last_key))\<rparr>))"

subsection \<open>Well-formed tables\<close>

definition peer_ok :: "peer_state \<Rightarrow> bool" where
  "peer_ok p \<longleftrightarrow> from_millis 100 \<le> failure_retry_timeout p \<and> failure_retry_timeout p \<le> from_millis 5000"

definition table_ok :: "'a peer_table_scheme \<Rightarrow> bool" where
  "table_ok st \<longleftrightarrow> bt_ok (trusted_remotes st)
     \<and> (\<forall>k p. bt_get (trusted_remotes st) k = Some p \<longrightarrow> peer_ok p)"

lemmas backoff_defs = punch_failed_def punch_succeeded_def peer_state_default_def Let_def
  HOLE_PUNCH_FAILED_INITIAL_TIMEOUT_MS_def HOLE_PUNCH_FAILED_MAX_TIMEOUT_MS_def

lemma peer_ok_default [simp]: "peer_ok peer_state_default"
  by (simp add: peer_ok_def backoff_defs time_simps)

lemma peer_ok_punch_failed [simp]: "peer_ok p \<Longrightarrow> peer_ok (punch_failed now p)"
  by (simp add: peer_ok_def backoff_defs time_simps)

lemma peer_ok_punch_succeeded [simp]: "peer_ok (punch_succeeded p)"
  by (simp add: peer_ok_def backoff_defs time_simps)

lemma peer_ok_update [simp]:
  "peer_ok (p\<lparr>state_kind := k\<rparr>) = peer_ok p" "peer_ok (p\<lparr>last_accepted_session_id := s\<rparr>) = peer_ok p"
  by (simp_all add: peer_ok_def)

lemma table_okD:
  "table_ok st \<Longrightarrow> bt_ok (trusted_remotes st)"
  "table_ok st \<Longrightarrow> bt_get (trusted_remotes st) k = Some p \<Longrightarrow> peer_ok p"
  by (auto simp: table_ok_def)

lemma table_ok_insert [intro]:
  "table_ok st \<Longrightarrow> peer_ok p \<Longrightarrow> table_ok (st\<lparr>trusted_remotes := bt_insert k p (trusted_remotes st)\<rparr>)"
  by (simp add: table_ok_def)

lemma or_default_ok [simp, intro]: "bt_ok m \<Longrightarrow> bt_ok (or_default k m)"
  unfolding or_default_def by (rule bt.ok_entry_or)

lemma get_or_default: "bt_ok m \<Longrightarrow> bt_get (or_default k m) j =
    (if j = k \<and> bt_get m k = None then Some peer_state_default else bt_get m j)"
  unfolding or_default_def by (rule bt.get_entry_or)

lemma table_ok_or_default: "table_ok st \<Longrightarrow> table_ok (st\<lparr>trusted_remotes := or_default k (trusted_remotes st)\<rparr>)"
  by (auto simp: table_ok_def get_or_default)

lemma table_ok_add: "table_ok st \<Longrightarrow> table_ok (add_trusted_remote k st)"
  unfolding add_trusted_remote_def by (rule table_ok_or_default)

lemma table_ok_remove: "table_ok st \<Longrightarrow> table_ok (remove_trusted_remote k st)"
  by (auto simp: table_ok_def remove_trusted_remote_def)

lemma get_on_connection_closed:
  assumes "bt_ok (trusted_remotes st)"
  shows "bt_get (trusted_remotes (on_connection_closed k st)) j =
    (if j = k then Some ((case bt_get (trusted_remotes st) k of None \<Rightarrow> peer_state_default | Some p \<Rightarrow> p)
                           \<lparr>state_kind := Enabled\<rparr>)
     else bt_get (trusted_remotes st) j)"
  using assms by (simp add: on_connection_closed_def Let_def get_or_default split: option.split)

lemma bt_ok_on_connection_closed:
  "bt_ok (trusted_remotes st) \<Longrightarrow> bt_ok (trusted_remotes (on_connection_closed k st))"
  by (simp add: on_connection_closed_def Let_def split: option.split)

lemma table_ok_on_connection_closed: "table_ok st \<Longrightarrow> table_ok (on_connection_closed k st)"
  by (auto simp: table_ok_def get_on_connection_closed bt_ok_on_connection_closed split: option.split)

lemma or_default_fun:
  "or_default = (\<lambda>k m. case bt_get m k of None \<Rightarrow> bt_insert k peer_state_default m | Some _ \<Rightarrow> m)"
  by (intro ext) (simp add: or_default_def)

lemma get_set_trusted_remote_list:
  assumes "bt_ok (trusted_remotes st)"
  shows "bt_get (trusted_remotes (set_trusted_remote_list ks st)) j =
    (if j \<in> set ks then Some (case bt_get (trusted_remotes st) j of None \<Rightarrow> peer_state_default | Some p \<Rightarrow> p)
     else None)"
  using bt.get_replace_keys [OF assms, of ks peer_state_default j]
  by (simp add: set_trusted_remote_list_def or_default_fun)

lemma bt_ok_set_trusted_remote_list:
  "bt_ok (trusted_remotes st) \<Longrightarrow> bt_ok (trusted_remotes (set_trusted_remote_list ks st))"
  using bt.fold_entry_or [of "trusted_remotes st" peer_state_default ks]
  by (simp add: set_trusted_remote_list_def or_default_fun)

lemma table_ok_set_trusted_remote_list: "table_ok st \<Longrightarrow> table_ok (set_trusted_remote_list ks st)"
  by (auto simp: table_ok_def get_set_trusted_remote_list bt_ok_set_trusted_remote_list
      split: if_splits option.splits)

subsection \<open>Rotation\<close>

text \<open>The cyclic order of the keys that starts at an offset.\<close>

definition rotation :: "pubkey list \<Rightarrow> pubkey \<Rightarrow> pubkey list" where
  "rotation ks off = filter (\<lambda>k. off \<le> k) ks @ filter (\<lambda>k. k < off) ks"

text \<open>The key the offset moves to after \<open>l\<close> was the last one taken.\<close>

definition next_offset :: "pubkey list \<Rightarrow> pubkey \<Rightarrow> pubkey" where
  "next_offset ks l = (case filter (\<lambda>k. l < k) ks of k # _ \<Rightarrow> k
     | [] \<Rightarrow> (case ks of k # _ \<Rightarrow> k | [] \<Rightarrow> l))"

lemma set_rotation [simp]: "set (rotation ks off) = set ks"
  by (auto simp: rotation_def)

lemma length_rotation [simp]: "length (rotation ks off) = length ks"
  using sum_length_filter_compl [of "\<lambda>k. off \<le> k" ks] by (simp add: rotation_def not_le)

lemma distinct_rotation: "distinct ks \<Longrightarrow> distinct (rotation ks off)"
  by (auto simp: rotation_def)

lemma filter_split_sorted:
  "sorted_wrt (<) ks \<Longrightarrow> filter (\<lambda>k. k < off) ks @ filter (\<lambda>k. off \<le> k) ks = (ks :: 'a::linorder list)"
proof (induction ks)
  case (Cons k ks)
  show ?case
  proof (cases "k < off")
    case False
    then have "\<forall>j \<in> set ks. off \<le> j" using Cons.prems by auto
    then have "filter (\<lambda>k. k < off) ks = []" "filter (\<lambda>k. off \<le> k) ks = ks"
      by (auto simp: filter_empty_conv)
    with False show ?thesis by simp
  qed (use Cons in auto)
qed simp

lemma distinct_split_unique:
  "distinct (xs @ l # zs) \<Longrightarrow> xs @ l # zs = xs' @ l # zs' \<Longrightarrow> xs = xs' \<and> zs = zs'"
  by (metis append_Cons_eq_iff distinct.simps(2) distinct_append not_distinct_conv_prefix
      disjoint_insert(2) list.set_intros(1) list.simps(15))

lemma rotation_next:
  assumes ks: "sorted_wrt (<) ks" and split: "ks = a @ l # b"
  shows "rotation ks (next_offset ks l) = b @ a @ [l]"
proof (cases b)
  case Nil
  then have empty: "filter (\<lambda>k. l < k) ks = []"
    using ks by (auto simp: split filter_empty_conv sorted_wrt_append)
  have "ks \<noteq> []" using split by simp
  then obtain h t where h: "ks = h # t" by (cases ks) simp_all
  have "\<forall>k \<in> set t. h \<le> k" "\<forall>k \<in> set t. \<not> k < h" using ks by (auto simp: h)
  then have "filter (\<lambda>k. h \<le> k) t = t" "filter (\<lambda>k. k < h) t = []"
    by (simp_all add: filter_empty_conv filter_id_conv)
  then have "rotation ks h = ks" by (simp add: rotation_def h)
  moreover have "next_offset ks l = h" unfolding next_offset_def empty by (simp add: h)
  ultimately show ?thesis using split Nil by simp
next
  case (Cons h t)
  have fb: "filter (\<lambda>k. l < k) ks = b"
    using ks by (auto simp: split filter_empty_conv filter_id_conv sorted_wrt_append)
  have "\<forall>k \<in> set (a @ [l]). k < h" "\<forall>k \<in> set b. h \<le> k"
    using ks by (auto simp: split Cons sorted_wrt_append)
  then have "filter (\<lambda>k. h \<le> k) ks = b" "filter (\<lambda>k. k < h) ks = a @ [l]"
    by (auto simp: split filter_empty_conv filter_id_conv not_le not_less)
  with fb show ?thesis by (simp add: next_offset_def Cons rotation_def)
qed

lemma rotation_step:
  assumes ks: "sorted_wrt (<) ks" and r: "rotation ks off = xs @ l # zs"
  shows "rotation ks (next_offset ks l) = zs @ xs @ [l]"
proof -
  have dist: "distinct (xs @ l # zs)"
    using distinct_rotation [of ks off] ks r by (simp add: strict_sorted_iff)
  have "l \<in> set ks" using r set_rotation [of ks off] by auto
  then obtain a b where split: "ks = a @ l # b" by (meson split_list)
  then have order: "\<forall>k \<in> set a. k < l" "\<forall>k \<in> set b. l < k" "sorted_wrt (<) a" "sorted_wrt (<) b"
    using ks by (auto simp: sorted_wrt_append)
  have goal: "b @ a @ [l] = zs @ xs @ [l]"
  proof (cases "off \<le> l")
    case True
    then have "filter (\<lambda>k. k < off) b = []" "filter (\<lambda>k. off \<le> k) b = b"
      using order(2) by (auto simp: filter_empty_conv filter_id_conv)
    with True have "xs @ l # zs = filter (\<lambda>k. off \<le> k) a @ l # (b @ filter (\<lambda>k. k < off) a)"
      by (simp add: rotation_def split flip: r)
    from distinct_split_unique [OF dist this] filter_split_sorted [OF order(3)]
    show ?thesis by (metis append.assoc)
  next
    case False
    then have "filter (\<lambda>k. off \<le> k) a = []" "filter (\<lambda>k. k < off) a = a"
      using order(1) by (auto simp: filter_empty_conv filter_id_conv)
    with False have "xs @ l # zs = (filter (\<lambda>k. off \<le> k) b @ a) @ l # filter (\<lambda>k. k < off) b"
      by (simp add: rotation_def split flip: r)
    from distinct_split_unique [OF dist this] filter_split_sorted [OF order(4)]
    show ?thesis by (metis append.assoc)
  qed
  show ?thesis using rotation_next [OF ks split] goal by simp
qed

lemma take_filter_split:
  assumes "n < length (filter P xs)"
  obtains us l vs where "xs = us @ l # vs" "P l" "length (filter P us) = n"
    "take (Suc n) (filter P xs) = filter P us @ [l]"
proof -
  from assms have "\<exists>us l vs. xs = us @ l # vs \<and> P l \<and> length (filter P us) = n"
  proof (induction xs arbitrary: n)
    case (Cons x xs)
    show ?case
    proof (cases "P x \<and> n = 0")
      case True
      then show ?thesis by (intro exI [of _ "[]"] exI [of _ x] exI [of _ xs]) simp
    next
      case False
      then have "(if P x then n - 1 else n) < length (filter P xs)" using Cons.prems by (auto split: if_splits)
      from Cons.IH [OF this] obtain us l vs where "xs = us @ l # vs" "P l"
        "length (filter P us) = (if P x then n - 1 else n)" by blast
      with False show ?thesis
        by (intro exI [of _ "x # us"] exI [of _ l] exI [of _ vs]) auto
    qed
  qed simp
  then show ?thesis using that by fastforce
qed

text \<open>The list and the new offset in terms of the rotation of the keys.\<close>

definition enabled_at :: "instant \<Rightarrow> (pubkey, peer_state) btmap \<Rightarrow> pubkey \<Rightarrow> bool" where
  "enabled_at now m k \<longleftrightarrow> (case bt_get m k of Some p \<Rightarrow> is_discovery_enabled now p | None \<Rightarrow> False)"

lemma keys_filter_enabled:
  assumes "bt_ok m" and "set kvs \<subseteq> set m"
  shows "map fst (filter (\<lambda>(_, s). is_discovery_enabled now s) kvs) =
    filter (enabled_at now m) (map fst kvs)"
proof -
  have "is_discovery_enabled now s \<longleftrightarrow> enabled_at now m k" if "(k, s) \<in> set kvs" for k s
    using that assms bt_get_in_set [OF assms(1)] by (auto simp: enabled_at_def)
  then have "filter (\<lambda>(_, s). is_discovery_enabled now s) kvs = filter (\<lambda>(k, _). enabled_at now m k) kvs"
    by (intro filter_cong) auto
  then show ?thesis by (simp add: filter_map o_def case_prod_unfold)
qed

lemma map_fst_ranges:
  "map fst (bt_range_from off m @ bt_range_to off m) = rotation (bt_keys m) off"
  "map fst (bt_range_above l m) = filter (\<lambda>k. l < k) (bt_keys m)"
  by (simp_all add: rotation_def bt_range_from_def bt_range_to_def bt_range_above_def bt_keys_def
      filter_map o_def case_prod_unfold)

lemma available_list:
  assumes "bt_ok (trusted_remotes st)"
  shows "fst (new_available_remotes_list now st) =
    take 10 (filter (enabled_at now (trusted_remotes st))
      (rotation (bt_keys (trusted_remotes st)) (last_trusted_peer_offset st)))"
proof -
  let ?m = "trusted_remotes st" and ?off = "last_trusted_peer_offset st"
  have "set (bt_range_from ?off ?m @ bt_range_to ?off ?m) \<subseteq> set ?m"
    by (auto simp: bt_range_from_def bt_range_to_def)
  from keys_filter_enabled [OF assms this, of now] show ?thesis
    by (simp only: new_available_remotes_list_def Let_def fst_conv take_map [symmetric] map_fst_ranges)
qed

lemma available_offset:
  "last_trusted_peer_offset (snd (new_available_remotes_list now st)) =
    (let result = fst (new_available_remotes_list now st) in
     if result = [] then last_trusted_peer_offset st
     else next_offset (bt_keys (trusted_remotes st)) (last result))"
  by (auto simp: new_available_remotes_list_def Let_def next_offset_def map_fst_ranges(2) [symmetric]
      split: list.splits)

lemma available_table [simp]:
  "trusted_remotes (snd (new_available_remotes_list now st)) = trusted_remotes st"
  by (simp add: new_available_remotes_list_def Let_def)

subsection \<open>Properties\<close>

text \<open>A table of three peers: two enabled, one in its back-off, one connected.\<close>

definition ex_table :: peer_table where
  "ex_table = \<lparr>trusted_remotes =
     [(key_fill 1, peer_state_default),
      (key_fill 2, punch_failed 0 peer_state_default),
      (key_fill 3, peer_state_default),
      (key_fill 4, punch_succeeded peer_state_default)],
     last_trusted_peer_offset = key_fill 3\<rparr>"

lemma ex_table_ok [simp]: "table_ok ex_table" "bt_ok (trusted_remotes ex_table)"
  by (auto simp: table_ok_def ex_table_def bt_ok_def bt_get_def split: if_splits)

text \<open>The peers one request names are the first ten enabled ones in cyclic key order from the
  offset: at most ten, no duplicates, all trusted and enabled, and at least one if any peer is
  enabled. So the panic of the message encoder is never reached from the client.\<close>

lemma available_list_shape:
  assumes "table_ok st" and "new_available_remotes_list now st = (ks, st')"
  shows "ks = take 10 (filter (enabled_at now (trusted_remotes st))
      (rotation (bt_keys (trusted_remotes st)) (last_trusted_peer_offset st)))
    \<and> length ks \<le> 10 \<and> distinct ks
    \<and> (\<forall>k \<in> set ks. enabled_at now (trusted_remotes st) k)
    \<and> (ks = [] \<longleftrightarrow> (\<forall>k. \<not> enabled_at now (trusted_remotes st) k))
    \<and> trusted_remotes st' = trusted_remotes st"
proof -
  let ?m = "trusted_remotes st"
  note ok = table_okD(1) [OF assms(1)]
  from assms(2) have ks: "ks = fst (new_available_remotes_list now st)"
    and st': "st' = snd (new_available_remotes_list now st)" by simp_all
  have "enabled_at now ?m k \<Longrightarrow> k \<in> set (bt_keys ?m)" for k
    using bt.keys_get [OF ok, of k] by (auto simp: enabled_at_def split: option.splits)
  moreover have "distinct (rotation (bt_keys ?m) off)" for off
    using bt.keys_distinct [OF ok] by (rule distinct_rotation)
  ultimately show ?thesis
    unfolding ks st' available_list [OF ok]
    by (auto simp: filter_empty_conv dest: in_set_takeD)
qed

lemma available_list_shape_witness:
  "new_available_remotes_list 0 ex_table =
     ([key_fill 3, key_fill 1], ex_table\<lparr>last_trusted_peer_offset := key_fill 2\<rparr>)
   \<and> length [key_fill 3, key_fill 1] \<le> 10 \<and> distinct [key_fill 3, key_fill 1]"
proof -
  have e: "new_available_remotes_list 0 ex_table =
      ([key_fill 3, key_fill 1], ex_table\<lparr>last_trusted_peer_offset := key_fill 2\<rparr>)"
    by (simp add: new_available_remotes_list_def ex_table_def bt_range_from_def bt_range_to_def
        bt_range_above_def is_discovery_enabled_def backoff_defs word_le_nat_alt)
  from available_list_shape [OF ex_table_ok(1) e] e show ?thesis by blast
qed

text \<open>
  Consecutive calls: each at its own instant and with the table as it is then; the offset is
  carried from call to call.
\<close>

fun list_rounds ::
  "(instant \<times> (pubkey, peer_state) btmap) list \<Rightarrow> pubkey \<Rightarrow> pubkey list list" where
  "list_rounds [] off = []"
| "list_rounds ((now, m) # calls) off =
    (let (ks, st) = new_available_remotes_list now \<lparr>trusted_remotes = m, last_trusted_peer_offset = off\<rparr>
     in ks # list_rounds calls (last_trusted_peer_offset st))"

lemma rotation_progress:
  assumes ok: "bt_ok m" and r: "rotation (bt_keys m) off = us @ k # vs" and en: "enabled_at now m k"
    and st: "st = \<lparr>trusted_remotes = m, last_trusted_peer_offset = off\<rparr>"
    and missed: "k \<notin> set (fst (new_available_remotes_list now st))"
  obtains ys ws where "rotation (bt_keys m) (last_trusted_peer_offset (snd (new_available_remotes_list now st))) = ys @ k # ws"
    and "length ys + 10 \<le> length us"
proof -
  let ?P = "enabled_at now m"
  have list: "fst (new_available_remotes_list now st) = take 10 (filter ?P (us @ k # vs))"
    using available_list [of st now] ok r by (simp add: st)
  have "9 < length (filter ?P us)"
  proof (rule ccontr)
    assume "\<not> 9 < length (filter ?P us)"
    then have "k \<in> set (take 10 (filter ?P (us @ k # vs)))" using en by (simp add: take_Cons' not_less)
    with missed list show False by simp
  qed
  from take_filter_split [OF this] obtain xs l ys where us: "us = xs @ l # ys" "?P l"
    and n: "length (filter ?P xs) = 9" and "take (Suc 9) (filter ?P us) = filter ?P xs @ [l]" .
  then have t: "take 10 (filter ?P us) = filter ?P xs @ [l]" by simp
  have "fst (new_available_remotes_list now st) = filter ?P xs @ [l]"
    using t \<open>9 < length (filter ?P us)\<close> unfolding list by simp
  then have "last_trusted_peer_offset (snd (new_available_remotes_list now st)) = next_offset (bt_keys m) l"
    using available_offset [of now st] by (simp add: st Let_def)
  moreover have "rotation (bt_keys m) (next_offset (bt_keys m) l) = ys @ k # (vs @ xs @ [l])"
    using rotation_step [OF bt.keys_sorted [OF ok], of off xs l "ys @ k # vs"] r us by simp
  moreover have "9 \<le> length xs" using n length_filter_le [of ?P xs] by simp
  ultimately show ?thesis using that [of ys "vs @ xs @ [l]"] us by simp
qed

lemma list_rounds_reach:
  assumes "\<forall>(now, m) \<in> set calls. bt_ok m \<and> bt_keys m = ks \<and> enabled_at now m k"
    and "rotation ks off = us @ k # vs" and "length us < 10 * length calls"
  shows "\<exists>r \<in> set (list_rounds calls off). k \<in> set r"
  using assms
proof (induction calls arbitrary: off us vs)
  case (Cons c calls)
  obtain now m where c: "c = (now, m)" by (cases c)
  from Cons.prems(1) c have ok: "bt_ok m" and ks: "bt_keys m = ks" and en: "enabled_at now m k" by auto
  define st where "st = \<lparr>trusted_remotes = m, last_trusted_peer_offset = off\<rparr>"
  let ?l = "new_available_remotes_list now st"
  have rounds: "list_rounds (c # calls) off = fst ?l # list_rounds calls (last_trusted_peer_offset (snd ?l))"
    by (simp add: c st_def case_prod_unfold Let_def)
  show ?case
  proof (cases "k \<in> set (fst ?l)")
    case True
    then show ?thesis unfolding rounds by simp
  next
    case False
    have r: "rotation (bt_keys m) off = us @ k # vs" using Cons.prems(2) ks by simp
    from rotation_progress [OF ok r en st_def False] obtain ys ws
      where next_r: "rotation (bt_keys m) (last_trusted_peer_offset (snd ?l)) = ys @ k # ws"
        and len: "length ys + 10 \<le> length us" .
    from len Cons.prems(3) have "length ys < 10 * length calls" by simp
    with Cons.IH [OF _ next_r [unfolded ks]] Cons.prems(1) show ?thesis
      unfolding rounds by auto
  qed
qed simp

text \<open>C15: No starvation: with \<open>n\<close> trusted peers, a peer whose discovery is enabled at every call is
  named in one of any \<open>n / 10\<close> (rounded up) consecutive calls, whatever happens to the states
  of the other peers in between, as long as the set of trusted peers stays the same.\<close>

theorem no_starvation:
  assumes "\<forall>(now, m) \<in> set calls. bt_ok m \<and> bt_keys m = ks \<and> enabled_at now m k"
    and "k \<in> set ks" and "length ks \<le> 10 * length calls"
  shows "\<exists>r \<in> set (list_rounds calls off). k \<in> set r"
proof -
  from assms(2) have "k \<in> set (rotation ks off)" by simp
  then obtain us vs where r: "rotation ks off = us @ k # vs" by (meson split_list)
  then have "length us < length ks" using length_rotation [of ks off] by simp
  with assms(3) list_rounds_reach [OF assms(1) r] show ?thesis by simp
qed

theorem no_starvation_witness:
  "\<exists>r \<in> set (list_rounds [(0, trusted_remotes ex_table)] (key_fill 2)). key_fill 1 \<in> set r"
  by (rule no_starvation [where ks = "[key_fill 1, key_fill 2, key_fill 3, key_fill 4]"])
    (simp_all add: ex_table_def bt_ok_def bt_keys_def enabled_at_def bt_get_def
      is_discovery_enabled_def backoff_defs)

text \<open>The back-off after failed hole punches: the waiting time before the next attempt is 100 ms,
  then doubles until the step is capped at one second, and stays at five seconds; a peer is
  enabled again strictly after its waiting time, and at once when a connection is closed.\<close>

lemma backoff_schedule:
  "failure_retry_timeout (foldl (\<lambda>p t. punch_failed t p) peer_state_default ts) =
     from_millis (if length ts < 9 then [100, 200, 400, 800, 1600, 2600, 3600, 4600, 5000] ! length ts else 5000)
   \<and> (is_discovery_enabled now (punch_failed t p) \<longleftrightarrow> t + failure_retry_timeout p < now)"
proof -
  have "failure_retry_timeout (foldl (\<lambda>p t. punch_failed t p) peer_state_default ts) =
     from_millis (if length ts < 9 then [100, 200, 400, 800, 1600, 2600, 3600, 4600, 5000] ! length ts else 5000)"
  proof (induction ts rule: rev_induct)
    case Nil
    show ?case by (simp add: backoff_defs)
  next
    case (snoc t ts)
    have "length ts = 0 \<or> length ts = 1 \<or> length ts = 2 \<or> length ts = 3 \<or> length ts = 4
        \<or> length ts = 5 \<or> length ts = 6 \<or> length ts = 7 \<or> length ts = 8 \<or> 9 \<le> length ts"
      by presburger
    with snoc show ?case
      by (auto simp: punch_failed_def Let_def HOLE_PUNCH_FAILED_MAX_TIMEOUT_MS_def time_simps)
  qed
  then show ?thesis by (simp add: punch_failed_def is_discovery_enabled_def Let_def)
qed

text \<open>Setting the trusted list: afterwards exactly the listed peers are trusted, those already known
  keep their state (a connected peer stays connected), new ones start enabled; and the table
  stays well formed, with every retry time between 100 ms and 5 s.\<close>

lemma set_trusted_remote_list_exact:
  assumes "table_ok st"
  shows "bt_get (trusted_remotes (set_trusted_remote_list ks st)) k =
      (if k \<in> set ks then Some (case bt_get (trusted_remotes st) k of None \<Rightarrow> peer_state_default | Some p \<Rightarrow> p)
       else None)
    \<and> table_ok (set_trusted_remote_list ks st)"
  using get_set_trusted_remote_list [OF table_okD(1) [OF assms]] table_ok_set_trusted_remote_list [OF assms]
  by simp

lemma set_trusted_remote_list_exact_witness:
  "bt_get (trusted_remotes (set_trusted_remote_list [key_fill 4, key_fill 9] ex_table)) (key_fill 4) =
      (if key_fill 4 \<in> set [key_fill 4, key_fill 9]
       then Some (case bt_get (trusted_remotes ex_table) (key_fill 4) of None \<Rightarrow> peer_state_default | Some p \<Rightarrow> p)
       else None)
    \<and> table_ok (set_trusted_remote_list [key_fill 4, key_fill 9] ex_table)"
  by (rule set_trusted_remote_list_exact [OF ex_table_ok(1)])

end
