(* ===== verification/Hole_Punch.thy ===== *)
theory Hole_Punch
  imports Net_Types
begin

text \<open>
  \<open>UdpConnectionEstablisher::hole_punch\<close> (\<open>src/udp/client.rs\<close>): the exchange of \<open>punch\<close> and
  \<open>punch ack\<close> datagrams, the drain phase after it, and its error. What the runtime delivers
  is an argument: for each pass of a loop the instant read at its top and the event its
  \<open>select!\<close> (or \<open>timeout_at\<close>) completed with. A loop that is still waiting when the events
  end has the value \<open>None\<close>.
\<close>

definition punch_msg :: bytes where "punch_msg = [112, 117, 110, 99, 104]"
definition punch_ack_msg :: bytes where "punch_ack_msg = punch_msg @ [32, 97, 99, 107]"

lemma punch_msgs_differ [simp]: "punch_ack_msg \<noteq> punch_msg" "punch_msg \<noteq> punch_ack_msg"
  by (simp_all add: punch_msg_def punch_ack_msg_def)

subsection \<open>Errors\<close>

record hole_punch_error =
  hpe_got_punch :: bool
  hpe_got_ack :: bool

definition hole_punch_error_display :: "hole_punch_error \<Rightarrow> string" where
  "hole_punch_error_display e =
    (if \<not> hpe_got_ack e \<and> \<not> hpe_got_punch e then ''Did not receive packets from client at all!''
     else if hpe_got_ack e then ''We got ack from client, but missed punch packet (strange)''
     else ''We got punch but did not receive ack'')"

subsection \<open>The punch phase\<close>

datatype punch_event = Tick | RecvOk bytes socket_addr | RecvErr

record punch_state =
  cur_send_dst :: socket_addr
  got_punch :: bool
  got_punch_ack :: bool
  sent_log :: "(bytes \<times> socket_addr) list"

definition punch_start :: "socket_addr \<Rightarrow> punch_state" where
  "punch_start peer = \<lparr>cur_send_dst = peer, got_punch = False, got_punch_ack = False, sent_log = []\<rparr>"

text \<open>The arms of the \<open>select!\<close>; whether a send succeeds is only logged.\<close>

fun punch_step :: "punch_event \<Rightarrow> punch_state \<Rightarrow> punch_state" where
  "punch_step Tick s = s\<lparr>sent_log := sent_log s @ [(punch_msg, cur_send_dst s)]\<rparr>"
| "punch_step (RecvOk msg src) s =
     (if msg = punch_msg then
        (let s = (if src \<noteq> cur_send_dst s then s\<lparr>cur_send_dst := src\<rparr> else s);
             s = s\<lparr>sent_log := sent_log s @ [(punch_ack_msg, src)]\<rparr>
         in s\<lparr>got_punch := True\<rparr>)
      else if msg = punch_ack_msg then s\<lparr>got_punch_ack := True\<rparr>
      else s)"
| "punch_step RecvErr s = s"

fun punch_loop :: "instant \<Rightarrow> (instant \<times> punch_event) list \<Rightarrow> punch_state \<Rightarrow> punch_state option" where
  "punch_loop deadline [] s = (if got_punch s \<and> got_punch_ack s then Some s else None)"
| "punch_loop deadline ((now, e) # es) s =
     (if now \<ge> deadline then Some s
      else if got_punch s \<and> got_punch_ack s then Some s
      else punch_loop deadline es (punch_step e s))"

subsection \<open>The drain phase\<close>

datatype drain_event = DrainOk bytes socket_addr | DrainErr | DrainTimeout

text \<open>The loop that discards late packets; its value lists the packets it warns about.\<close>

fun drain_loop :: "instant \<Rightarrow> (instant \<times> drain_event) list \<Rightarrow> bytes list option" where
  "drain_loop deadline [] = None"
| "drain_loop deadline ((now, e) # es) =
     (if now \<ge> deadline then Some []
      else (case e of
          DrainOk msg src \<Rightarrow>
            map_option (\<lambda>w. if msg \<noteq> punch_msg \<and> msg \<noteq> punch_ack_msg then msg # w else w)
              (drain_loop deadline es)
        | DrainErr \<Rightarrow> drain_loop deadline es
        | DrainTimeout \<Rightarrow> Some []))"

subsection \<open>The whole handshake\<close>

record punch_trace =
  pt_start :: instant
  pt_events :: "(instant \<times> punch_event) list"
  pt_drain_start :: instant
  pt_drain :: "(instant \<times> drain_event) list"

text \<open>The result with the packets sent; \<open>None\<close> while the handshake is still running.\<close>

definition hole_punch ::
  "socket_addr \<Rightarrow> punch_trace \<Rightarrow> ((socket_addr, hole_punch_error) res \<times> (bytes \<times> socket_addr) list) option" where
  "hole_punch peer tr =
    (case punch_loop (pt_start tr + from_millis 500) (pt_events tr) (punch_start peer) of
       None \<Rightarrow> None
     | Some s \<Rightarrow>
         if \<not> got_punch s \<or> \<not> got_punch_ack s
         then Some (Err \<lparr>hpe_got_punch = got_punch s, hpe_got_ack = got_punch_ack s\<rparr>, sent_log s)
         else (case drain_loop (pt_drain_start tr + from_millis 200) (pt_drain tr) of
                 None \<Rightarrow> None
               | Some _ \<Rightarrow> Some (Ok (cur_send_dst s), sent_log s)))"

subsection \<open>What the loop has seen\<close>

text \<open>The sources of the punches and of the acks among some events.\<close>

definition punch_sources :: "punch_event list \<Rightarrow> socket_addr list" where
  "punch_sources es = concat (map (\<lambda>e. case e of RecvOk m src \<Rightarrow> if m = punch_msg then [src] else [] | _ \<Rightarrow> []) es)"

definition ack_sources :: "punch_event list \<Rightarrow> socket_addr list" where
  "ack_sources es = concat (map (\<lambda>e. case e of RecvOk m src \<Rightarrow> if m = punch_ack_msg then [src] else [] | _ \<Rightarrow> []) es)"

lemma punch_sources_simps [simp]:
  "punch_sources [] = []" "punch_sources (Tick # es) = punch_sources es"
  "punch_sources (RecvErr # es) = punch_sources es"
  "punch_sources (RecvOk m src # es) = (if m = punch_msg then src # punch_sources es else punch_sources es)"
  by (simp_all add: punch_sources_def)

lemma ack_sources_simps [simp]:
  "ack_sources [] = []" "ack_sources (Tick # es) = ack_sources es"
  "ack_sources (RecvErr # es) = ack_sources es"
  "ack_sources (RecvOk m src # es) = (if m = punch_ack_msg then src # ack_sources es else ack_sources es)"
  by (simp_all add: ack_sources_def)

lemma in_ack_sources: "src \<in> set (ack_sources es) \<longleftrightarrow> RecvOk punch_ack_msg src \<in> set es"
  by (induction es) (auto split: punch_event.splits simp: ack_sources_def)

text \<open>The events handled before the deadline.\<close>

definition timely :: "instant \<Rightarrow> (instant \<times> punch_event) list \<Rightarrow> punch_event list" where
  "timely deadline es = map snd (takeWhile (\<lambda>(now, _). now < deadline) es)"

lemma timely_simps [simp]:
  "timely dl [] = []"
  "timely dl ((now, e) # es) = (if now < dl then e # timely dl es else [])"
  by (simp_all add: timely_def)

lemma punch_step_flags [simp]:
  "got_punch (punch_step e s) \<longleftrightarrow> got_punch s \<or> punch_sources [e] \<noteq> []"
  "got_punch_ack (punch_step e s) \<longleftrightarrow> got_punch_ack s \<or> ack_sources [e] \<noteq> []"
  "cur_send_dst (punch_step e s) = last (cur_send_dst s # punch_sources [e])"
  by (cases e; auto simp: Let_def)+

lemma punch_sources_Cons: "punch_sources (e # es) = punch_sources [e] @ punch_sources es"
  by (cases e) auto

lemma ack_sources_Cons: "ack_sources (e # es) = ack_sources [e] @ ack_sources es"
  by (cases e) auto

lemma punch_loop_terminates:
  "ev \<in> set es \<Longrightarrow> dl \<le> fst ev \<Longrightarrow> \<exists>s'. punch_loop dl es s = Some s'"
  by (induction dl es s rule: punch_loop.induct) auto

lemma drain_loop_terminates:
  "ev \<in> set es \<Longrightarrow> dl \<le> fst ev \<or> snd ev = DrainTimeout \<Longrightarrow> \<exists>w. drain_loop dl es = Some w"
  by (induction es) (fastforce split: drain_event.splits)+

text \<open>What was sent: one ack for every punch, to its source, and punches to the current destination.\<close>

lemma fold_punch_step_acks:
  "filter (\<lambda>p. fst p = punch_ack_msg) (sent_log (fold punch_step used s)) =
     filter (\<lambda>p. fst p = punch_ack_msg) (sent_log s) @ map (Pair punch_ack_msg) (punch_sources used)"
proof (induction used arbitrary: s)
  case (Cons e used)
  from Cons.IH [of "punch_step e s"] show ?case
    by (cases e) (auto simp: Let_def split: if_splits)
qed auto

lemma fold_punch_step_sent:
  "set (sent_log (fold punch_step used s)) \<subseteq> set (sent_log s)
    \<union> {(punch_ack_msg, a) | a. a \<in> set (punch_sources used)}
    \<union> {(punch_msg, a) | a. a \<in> set (cur_send_dst s # punch_sources used)}"
proof (induction used arbitrary: s)
  case (Cons e used)
  from Cons.IH [of "punch_step e s"] show ?case
    by (cases e) (auto simp: Let_def split: if_splits)
qed auto

subsection \<open>The whole handshake, in the terms of its events\<close>

definition shook_hands :: "punch_event list \<Rightarrow> bool" where
  "shook_hands es \<longleftrightarrow> punch_sources es \<noteq> [] \<and> ack_sources es \<noteq> []"

definition punch_timely :: "punch_trace \<Rightarrow> punch_event list" where
  "punch_timely tr = timely (pt_start tr + from_millis 500) (pt_events tr)"

text \<open>The loop stops at the first moment both kinds of packet have been seen.\<close>

definition undecided :: "bool \<Rightarrow> bool \<Rightarrow> punch_event list \<Rightarrow> bool" where
  "undecided g a used \<longleftrightarrow> (\<forall>u v. used = u @ v \<longrightarrow> v \<noteq> [] \<longrightarrow>
     \<not> ((g \<or> punch_sources u \<noteq> []) \<and> (a \<or> ack_sources u \<noteq> [])))"

lemma undecided_Nil [simp]: "undecided g a []"
  by (simp add: undecided_def)

lemma undecided_Cons:
  assumes "\<not> (g \<and> a)" and "undecided (g \<or> punch_sources [e] \<noteq> []) (a \<or> ack_sources [e] \<noteq> []) used"
  shows "undecided g a (e # used)"
  unfolding undecided_def
proof (intro allI impI)
  fix u v assume split: "e # used = u @ v" "v \<noteq> []"
  show "\<not> ((g \<or> punch_sources u \<noteq> []) \<and> (a \<or> ack_sources u \<noteq> []))"
  proof (cases u)
    case Nil
    with assms(1) show ?thesis by simp
  next
    case (Cons e' u')
    with split have "e' = e" "used = u' @ v" by auto
    with assms(2) split(2) Cons show ?thesis
      by (auto simp: undecided_def punch_sources_Cons [of e u'] ack_sources_Cons [of e u'])
  qed
qed

lemma punch_loop_minimal:
  assumes "punch_loop dl es s = Some s'"
  shows "\<exists>used rest. timely dl es = used @ rest \<and> s' = fold punch_step used s
    \<and> undecided (got_punch s) (got_punch_ack s) used \<and> (got_punch s' \<and> got_punch_ack s' \<or> rest = [])"
  using assms
proof (induction dl es s rule: punch_loop.induct)
  case (1 dl s)
  then show ?case by (auto split: if_splits)
next
  case (2 dl now e es s)
  show ?case
  proof (cases "dl \<le> now \<or> got_punch s \<and> got_punch_ack s")
    case True
    with "2.prems" show ?thesis
      by (intro exI [of _ "[]"] exI [of _ "timely dl ((now, e) # es)"]) (auto split: if_splits)
  next
    case False
    with "2.prems" have "punch_loop dl es (punch_step e s) = Some s'" by (auto split: if_splits)
    with "2.IH" False obtain used rest where u: "timely dl es = used @ rest"
      "s' = fold punch_step used (punch_step e s)" "got_punch s' \<and> got_punch_ack s' \<or> rest = []"
      and "undecided (got_punch (punch_step e s)) (got_punch_ack (punch_step e s)) used" by auto
    then have "undecided (got_punch s) (got_punch_ack s) (e # used)"
      using False by (intro undecided_Cons) simp_all
    with False u show ?thesis by (intro exI [of _ "e # used"] exI [of _ rest]) simp
  qed
qed

lemma hole_punch_run:
  assumes "hole_punch peer tr = Some (r, sent)"
  obtains s where "punch_loop (pt_start tr + from_millis 500) (pt_events tr) (punch_start peer) = Some s"
    and "sent = sent_log s"
    and "r = (if got_punch s \<and> got_punch_ack s then Ok (cur_send_dst s)
              else Err \<lparr>hpe_got_punch = got_punch s, hpe_got_ack = got_punch_ack s\<rparr>)"
  using assms by (auto simp: hole_punch_def split: option.splits if_splits)

lemma punch_start_simps [simp]:
  "got_punch (punch_start a) = False" "got_punch_ack (punch_start a) = False"
  "cur_send_dst (punch_start a) = a" "sent_log (punch_start a) = []"
  by (simp_all add: punch_start_def)

lemma fold_punch_step_flags:
  "got_punch (fold punch_step used s) \<longleftrightarrow> got_punch s \<or> punch_sources used \<noteq> []"
  "got_punch_ack (fold punch_step used s) \<longleftrightarrow> got_punch_ack s \<or> ack_sources used \<noteq> []"
  "cur_send_dst (fold punch_step used s) = last (cur_send_dst s # punch_sources used)"
proof -
  have "(got_punch (fold punch_step used s) \<longleftrightarrow> got_punch s \<or> punch_sources used \<noteq> [])
    \<and> (got_punch_ack (fold punch_step used s) \<longleftrightarrow> got_punch_ack s \<or> ack_sources used \<noteq> [])
    \<and> cur_send_dst (fold punch_step used s) = last (cur_send_dst s # punch_sources used)"
  proof (induction used arbitrary: s)
    case (Cons e used)
    from Cons.IH [of "punch_step e s"] show ?case
      by (simp add: punch_sources_Cons [of e used] ack_sources_Cons [of e used] last_append)
  qed simp
  then show "got_punch (fold punch_step used s) \<longleftrightarrow> got_punch s \<or> punch_sources used \<noteq> []"
    "got_punch_ack (fold punch_step used s) \<longleftrightarrow> got_punch_ack s \<or> ack_sources used \<noteq> []"
    "cur_send_dst (fold punch_step used s) = last (cur_send_dst s # punch_sources used)"
    by blast+
qed

lemma hole_punch_prefix:
  assumes "hole_punch peer tr = Some (r, sent)"
  obtains used rest where "punch_timely tr = used @ rest"
    and "sent = sent_log (fold punch_step used (punch_start peer))"
    and "r = (if shook_hands used then Ok (last (punch_sources used))
              else Err \<lparr>hpe_got_punch = (punch_sources used \<noteq> []), hpe_got_ack = (ack_sources used \<noteq> [])\<rparr>)"
    and "\<And>u v. used = u @ v \<Longrightarrow> v \<noteq> [] \<Longrightarrow> \<not> shook_hands u"
    and "shook_hands used \<or> rest = []"
proof -
  from hole_punch_run [OF assms] obtain s where
    s: "punch_loop (pt_start tr + from_millis 500) (pt_events tr) (punch_start peer) = Some s"
    "sent = sent_log s"
    "r = (if got_punch s \<and> got_punch_ack s then Ok (cur_send_dst s)
          else Err \<lparr>hpe_got_punch = got_punch s, hpe_got_ack = got_punch_ack s\<rparr>)" .
  from punch_loop_minimal [OF s(1)] obtain used rest where
    u: "punch_timely tr = used @ rest" and f: "s = fold punch_step used (punch_start peer)"
    and m: "\<And>u v. used = u @ v \<Longrightarrow> v \<noteq> [] \<Longrightarrow> \<not> shook_hands u"
    and fin: "got_punch s \<and> got_punch_ack s \<or> rest = []"
    unfolding punch_timely_def shook_hands_def undecided_def punch_start_simps by blast
  show ?thesis
  proof (rule that [OF u _ _ m])
    show "sent = sent_log (fold punch_step used (punch_start peer))" using s(2) f by simp
    show "r = (if shook_hands used then Ok (last (punch_sources used))
              else Err \<lparr>hpe_got_punch = (punch_sources used \<noteq> []), hpe_got_ack = (ack_sources used \<noteq> [])\<rparr>)"
      using s(3) by (simp add: f fold_punch_step_flags shook_hands_def)
    show "shook_hands used \<or> rest = []"
      using fin by (simp add: f fold_punch_step_flags shook_hands_def)
  qed
qed

lemma shook_hands_append: "shook_hands u \<Longrightarrow> shook_hands (u @ v)"
  by (auto simp: shook_hands_def punch_sources_def ack_sources_def)

lemma hole_punch_packets:
  assumes "hole_punch peer tr = Some (r, sent)" and "(m, dst) \<in> set sent"
  shows "m = punch_ack_msg \<and> dst \<in> set (punch_sources (punch_timely tr))
    \<or> m = punch_msg \<and> (dst = peer \<or> dst \<in> set (punch_sources (punch_timely tr)))"
  using assms(1)
proof (rule hole_punch_prefix)
  fix used rest
  assume u: "punch_timely tr = used @ rest"
    and "sent = sent_log (fold punch_step used (punch_start peer))"
  moreover have "set (punch_sources used) \<subseteq> set (punch_sources (used @ rest))"
    by (auto simp: punch_sources_def)
  ultimately show ?thesis
    using fold_punch_step_sent [of used "punch_start peer"] assms(2) by auto
qed

subsection \<open>Properties\<close>

definition ex_peer :: "u8 \<Rightarrow> socket_addr" where
  "ex_peer n = SockV4 (sock4 (Ipv4 10 0 0 n) 700)"

text \<open>A handshake in which the peer answers from another address than the server named.\<close>

definition ex_trace :: punch_trace where
  "ex_trace = \<lparr>pt_start = 0,
     pt_events = [(0, Tick), (1, RecvOk punch_msg (ex_peer 8)), (2, RecvOk punch_ack_msg (ex_peer 8))],
     pt_drain_start = 3, pt_drain = [(3, DrainOk punch_msg (ex_peer 8)), (4, DrainTimeout)]\<rparr>"

text \<open>The same with no answer at all until after the deadline.\<close>

definition ex_silent :: punch_trace where
  "ex_silent = \<lparr>pt_start = 0, pt_events = [(0, Tick), (from_millis 500, RecvOk punch_msg (ex_peer 8))],
     pt_drain_start = 0, pt_drain = []\<rparr>"

lemma ex_peer_eq [simp]: "ex_peer m = ex_peer n \<longleftrightarrow> m = n"
  by (simp add: ex_peer_def)

lemma ex_trace_run:
  "hole_punch (ex_peer 9) ex_trace = Some (Ok (ex_peer 8), [(punch_msg, ex_peer 9), (punch_ack_msg, ex_peer 8)])"
  by (simp add: hole_punch_def ex_trace_def punch_start_def Let_def time_simps)

lemma ex_silent_run:
  "hole_punch (ex_peer 9) ex_silent =
     Some (Err \<lparr>hpe_got_punch = False, hpe_got_ack = False\<rparr>, [(punch_msg, ex_peer 9)])"
  by (simp add: hole_punch_def ex_silent_def punch_start_def Let_def time_simps)

text \<open>The result in terms of the packets received in time.\<close>

lemma hole_punch_result:
  assumes "hole_punch peer tr = Some (r, sent)"
  shows "\<exists>used rest. punch_timely tr = used @ rest
    \<and> (shook_hands used \<or> rest = []) \<and> (\<forall>u v. used = u @ v \<longrightarrow> v \<noteq> [] \<longrightarrow> \<not> shook_hands u)
    \<and> r = (if shook_hands (punch_timely tr) then Ok (last (punch_sources used))
           else Err \<lparr>hpe_got_punch = (punch_sources (punch_timely tr) \<noteq> []),
                     hpe_got_ack = (ack_sources (punch_timely tr) \<noteq> [])\<rparr>)"
  using assms
proof (rule hole_punch_prefix)
  fix used rest
  assume "punch_timely tr = used @ rest" "shook_hands used \<or> rest = []"
    "\<And>u v. used = u @ v \<Longrightarrow> v \<noteq> [] \<Longrightarrow> \<not> shook_hands u"
    "r = (if shook_hands used then Ok (last (punch_sources used))
          else Err \<lparr>hpe_got_punch = (punch_sources used \<noteq> []), hpe_got_ack = (ack_sources used \<noteq> [])\<rparr>)"
  then show ?thesis
    by (intro exI [of _ used] exI [of _ rest]) (cases "shook_hands used"; simp add: shook_hands_append)
qed

text \<open>C11: A hole punch that returns succeeds exactly when both a punch and an ack arrived before
  the deadline; the address it returns is the source of the last punch in \<open>used\<close>, the shortest run of the events before
  the deadline that has both packets (all of them if there is none). A failure reports exactly which of the two had arrived. It
  does not panic.\<close>

theorem hole_punch_outcome:
  assumes "hole_punch peer tr = Some (r, sent)"
  shows "\<exists>used rest. punch_timely tr = used @ rest
    \<and> (shook_hands used \<or> rest = []) \<and> (\<forall>u v. used = u @ v \<longrightarrow> v \<noteq> [] \<longrightarrow> \<not> shook_hands u)
    \<and> r = (if shook_hands (punch_timely tr) then Ok (last (punch_sources used))
           else Err \<lparr>hpe_got_punch = (punch_sources (punch_timely tr) \<noteq> []),
                     hpe_got_ack = (ack_sources (punch_timely tr) \<noteq> [])\<rparr>)"
  using assms by (rule hole_punch_result)

theorem hole_punch_outcome_witness:
  "\<exists>used rest. punch_timely ex_trace = used @ rest
    \<and> (shook_hands used \<or> rest = []) \<and> (\<forall>u v. used = u @ v \<longrightarrow> v \<noteq> [] \<longrightarrow> \<not> shook_hands u)
    \<and> Ok (ex_peer 8) = (if shook_hands (punch_timely ex_trace) then Ok (last (punch_sources used))
           else Err \<lparr>hpe_got_punch = (punch_sources (punch_timely ex_trace) \<noteq> []),
                     hpe_got_ack = (ack_sources (punch_timely ex_trace) \<noteq> [])\<rparr>)"
  by (rule hole_punch_outcome [OF ex_trace_run])

text \<open>What a hole punch sends: one ack to the source of every punch it handled, in order, and
  nothing else but punches, which go to the peer the server named or to an address a punch came
  from.\<close>

lemma hole_punch_sends:
  assumes "hole_punch peer tr = Some (r, sent)"
  shows "\<exists>used rest. punch_timely tr = used @ rest
    \<and> filter (\<lambda>p. fst p = punch_ack_msg) sent = map (Pair punch_ack_msg) (punch_sources used)
    \<and> (\<forall>(m, dst) \<in> set sent. m = punch_ack_msg \<or> m = punch_msg \<and> dst \<in> set (peer # punch_sources used))"
  using assms
proof (rule hole_punch_prefix)
  fix used rest
  assume u: "punch_timely tr = used @ rest"
    and sent: "sent = sent_log (fold punch_step used (punch_start peer))"
  have "filter (\<lambda>p. fst p = punch_ack_msg) sent = map (Pair punch_ack_msg) (punch_sources used)"
    using fold_punch_step_acks [of used "punch_start peer"] by (simp add: sent)
  moreover have "\<forall>(m, dst) \<in> set sent.
      m = punch_ack_msg \<or> m = punch_msg \<and> dst \<in> set (peer # punch_sources used)"
    using fold_punch_step_sent [of used "punch_start peer"] by (auto simp: sent)
  ultimately show ?thesis using u by blast
qed

lemma hole_punch_sends_witness:
  "\<exists>used rest. punch_timely ex_trace = used @ rest
    \<and> filter (\<lambda>p. fst p = punch_ack_msg) [(punch_msg, ex_peer 9), (punch_ack_msg, ex_peer 8)]
        = map (Pair punch_ack_msg) (punch_sources used)
    \<and> (\<forall>(m, dst) \<in> set [(punch_msg, ex_peer 9), (punch_ack_msg, ex_peer 8)].
        m = punch_ack_msg \<or> m = punch_msg \<and> dst \<in> set (ex_peer 9 # punch_sources used))"
  by (rule hole_punch_sends [OF ex_trace_run])

text \<open>The clock passes both deadlines: some pass of the punch loop begins at or after its deadline, and
  some pass of the drain loop does, or its \<open>timeout_at\<close> completes.\<close>

definition reaches_deadlines :: "punch_trace \<Rightarrow> bool" where
  "reaches_deadlines tr \<longleftrightarrow> (\<exists>ev \<in> set (pt_events tr). pt_start tr + from_millis 500 \<le> fst ev)
     \<and> (\<exists>dv \<in> set (pt_drain tr). pt_drain_start tr + from_millis 200 \<le> fst dv \<or> snd dv = DrainTimeout)"

lemma hole_punch_ends:
  assumes "reaches_deadlines tr"
  shows "\<exists>r sent. hole_punch peer tr = Some (r, sent)"
proof -
  from assms obtain s where "punch_loop (pt_start tr + from_millis 500) (pt_events tr) (punch_start peer) = Some s"
    unfolding reaches_deadlines_def using punch_loop_terminates by blast
  moreover from assms obtain w where "drain_loop (pt_drain_start tr + from_millis 200) (pt_drain tr) = Some w"
    unfolding reaches_deadlines_def using drain_loop_terminates by blast
  ultimately show ?thesis by (simp add: hole_punch_def)
qed

text \<open>C30: A hole punch returns: once the clock has reached the deadline at the top of the punch
  loop, and the drain loop has reached its own deadline or timed out, there is a result,
  whatever was received.\<close>

theorem hole_punch_returns:
  assumes "ev \<in> set (pt_events tr)" "pt_start tr + from_millis 500 \<le> fst ev"
    and "dv \<in> set (pt_drain tr)" "pt_drain_start tr + from_millis 200 \<le> fst dv \<or> snd dv = DrainTimeout"
  shows "\<exists>r sent. hole_punch peer tr = Some (r, sent)"
  by (rule hole_punch_ends) (use assms in \<open>auto simp: reaches_deadlines_def\<close>)

theorem hole_punch_returns_witness:
  "\<exists>r sent. hole_punch (ex_peer 9)
     (ex_trace\<lparr>pt_events := [(from_millis 500, Tick)], pt_drain := [(0, DrainErr), (9, DrainTimeout)]\<rparr>) = Some (r, sent)"
  by (rule hole_punch_returns [of "(from_millis 500, Tick)" _ "(9, DrainTimeout)"]) (simp_all add: ex_trace_def)

text \<open>C29: Agreement of the two ends. If the acks a client received were sent by its peer's hole
  punch, then the client's success means that the peer did receive a punch: the peer succeeded as
  well, or lacks nothing but an ack and says so.\<close>

theorem hole_punch_agreement:
  assumes ours: "hole_punch peer\<^sub>A tr\<^sub>A = Some (Ok a, sent\<^sub>A)"
    and theirs: "hole_punch peer\<^sub>B tr\<^sub>B = Some (r\<^sub>B, sent\<^sub>B)"
    and network: "\<And>src. RecvOk punch_ack_msg src \<in> set (punch_timely tr\<^sub>A) \<Longrightarrow> \<exists>dst. (punch_ack_msg, dst) \<in> set sent\<^sub>B"
  shows "(\<exists>b. r\<^sub>B = Ok b)
    \<or> (\<exists>e. r\<^sub>B = Err e \<and> hole_punch_error_display e = ''We got punch but did not receive ack'')"
proof -
  from hole_punch_result [OF ours] have "ack_sources (punch_timely tr\<^sub>A) \<noteq> []"
    by (auto simp: shook_hands_def split: if_splits)
  then obtain src where "RecvOk punch_ack_msg src \<in> set (punch_timely tr\<^sub>A)"
    by (metis in_ack_sources last_in_set)
  from network [OF this] obtain dst where sent: "(punch_ack_msg, dst) \<in> set sent\<^sub>B" ..
  from theirs show ?thesis
  proof (rule hole_punch_prefix)
    fix used rest
    assume s: "sent\<^sub>B = sent_log (fold punch_step used (punch_start peer\<^sub>B))"
      and r: "r\<^sub>B = (if shook_hands used then Ok (last (punch_sources used))
        else Err \<lparr>hpe_got_punch = (punch_sources used \<noteq> []), hpe_got_ack = (ack_sources used \<noteq> [])\<rparr>)"
    have "filter (\<lambda>p. fst p = punch_ack_msg) sent\<^sub>B = map (Pair punch_ack_msg) (punch_sources used)"
      using fold_punch_step_acks [of used "punch_start peer\<^sub>B"] s by simp
    moreover have "(punch_ack_msg, dst) \<in> set (filter (\<lambda>p. fst p = punch_ack_msg) sent\<^sub>B)"
      using sent by simp
    ultimately have "punch_sources used \<noteq> []" by auto
    then show ?thesis using r by (auto simp: shook_hands_def hole_punch_error_display_def)
  qed
qed

theorem hole_punch_agreement_witness:
  "(\<exists>b. (Ok (ex_peer 8) :: (socket_addr, hole_punch_error) res) = Ok b)
    \<or> (\<exists>e. (Ok (ex_peer 8) :: (socket_addr, hole_punch_error) res) = Err e
        \<and> hole_punch_error_display e = ''We got punch but did not receive ack'')"
  by (rule hole_punch_agreement [OF ex_trace_run ex_trace_run]) auto

text \<open>One end of a hole punch, when all it receives comes from its peer.\<close>

definition only_from :: "socket_addr \<Rightarrow> punch_event list \<Rightarrow> bool" where
  "only_from peer es \<longleftrightarrow> (\<forall>m src. RecvOk m src \<in> set es \<longrightarrow> src = peer)"

lemma in_punch_sources: "src \<in> set (punch_sources es) \<longleftrightarrow> RecvOk punch_msg src \<in> set es"
  by (induction es) (auto split: punch_event.splits simp: punch_sources_def)

lemma hole_punch_acks_peer:
  assumes "hole_punch peer tr = Some (r, sent)" and "only_from peer (punch_timely tr)"
    and "RecvOk punch_msg peer \<in> set (punch_timely tr)"
  shows "(punch_ack_msg, peer) \<in> set sent"
  using assms(1)
proof (rule hole_punch_prefix)
  fix used rest
  assume u: "punch_timely tr = used @ rest" and sent: "sent = sent_log (fold punch_step used (punch_start peer))"
    and "shook_hands used \<or> rest = []"
  then have "punch_sources used \<noteq> []"
    using assms(3) in_punch_sources [of peer used] by (auto simp: shook_hands_def)
  then obtain src where src: "src \<in> set (punch_sources used)" by (meson last_in_set)
  then have "src = peer" using assms(2) u by (auto simp: in_punch_sources only_from_def)
  with src have "(punch_ack_msg, peer) \<in> set (filter (\<lambda>p. fst p = punch_ack_msg) sent)"
    unfolding sent fold_punch_step_acks by simp
  then show ?thesis by simp
qed

lemma hole_punch_from_peer:
  assumes "hole_punch peer tr = Some (r, sent)" and "only_from peer (punch_timely tr)"
    and "RecvOk punch_msg peer \<in> set (punch_timely tr)" and "RecvOk punch_ack_msg peer \<in> set (punch_timely tr)"
  shows "r = Ok peer"
  using assms(1)
proof (rule hole_punch_prefix)
  fix used rest
  assume u: "punch_timely tr = used @ rest" and "shook_hands used \<or> rest = []"
    and r: "r = (if shook_hands used then Ok (last (punch_sources used))
      else Err \<lparr>hpe_got_punch = (punch_sources used \<noteq> []), hpe_got_ack = (ack_sources used \<noteq> [])\<rparr>)"
  then have shook: "shook_hands used"
    using assms(3,4) in_punch_sources [of peer used] in_ack_sources [of peer used] by (auto simp: shook_hands_def)
  then have "last (punch_sources used) \<in> set (punch_sources used)" by (simp add: shook_hands_def)
  then have "last (punch_sources used) = peer" using assms(2) u unfolding in_punch_sources only_from_def by auto
  with r shook show ?thesis by simp
qed

text \<open>Two hole punches meet. When two ends punch towards each other, each has sent the other a punch, each
  receives packets from the other alone, and of each kind of packet that an end has sent the
  other one receives at least one before its deadline, then both succeed, each with the other's
  address: all other packets may be lost.\<close>

lemma hole_punch_meets:
  assumes A: "hole_punch b tr\<^sub>A = Some (r\<^sub>A, sent\<^sub>A)" "(punch_msg, b) \<in> set sent\<^sub>A"
      "only_from b (punch_timely tr\<^sub>A)"
    and B: "hole_punch a tr\<^sub>B = Some (r\<^sub>B, sent\<^sub>B)" "(punch_msg, a) \<in> set sent\<^sub>B"
      "only_from a (punch_timely tr\<^sub>B)"
    and network: "\<And>m. (m, b) \<in> set sent\<^sub>A \<Longrightarrow> RecvOk m a \<in> set (punch_timely tr\<^sub>B)"
      "\<And>m. (m, a) \<in> set sent\<^sub>B \<Longrightarrow> RecvOk m b \<in> set (punch_timely tr\<^sub>A)"
  shows "r\<^sub>A = Ok b \<and> r\<^sub>B = Ok a"
proof -
  have "RecvOk punch_msg a \<in> set (punch_timely tr\<^sub>B)" "RecvOk punch_msg b \<in> set (punch_timely tr\<^sub>A)"
    using network A(2) B(2) by blast+
  moreover from this have "(punch_ack_msg, a) \<in> set sent\<^sub>B" "(punch_ack_msg, b) \<in> set sent\<^sub>A"
    using hole_punch_acks_peer [OF A(1,3)] hole_punch_acks_peer [OF B(1,3)] by simp_all
  ultimately show ?thesis
    using hole_punch_from_peer [OF A(1,3)] hole_punch_from_peer [OF B(1,3)] network by blast
qed

text \<open>One end of such a pair of hole punches.\<close>

definition ex_meet :: "socket_addr \<Rightarrow> punch_trace" where
  "ex_meet peer = \<lparr>pt_start = 0, pt_events = [(0, Tick), (1, RecvOk punch_msg peer), (2, RecvOk punch_ack_msg peer)],
     pt_drain_start = 3, pt_drain = [(3, DrainTimeout)]\<rparr>"

lemma ex_meet_run: "hole_punch peer (ex_meet peer) = Some (Ok peer, [(punch_msg, peer), (punch_ack_msg, peer)])"
  by (simp add: hole_punch_def ex_meet_def punch_start_def Let_def time_simps)

lemma ex_meet_timely: "punch_timely (ex_meet peer) = [Tick, RecvOk punch_msg peer, RecvOk punch_ack_msg peer]"
  by (simp add: punch_timely_def timely_def ex_meet_def time_simps)

end
