(* ===== verification/System_Time.thy ===== *)
theory System_Time
  imports Complex_Main Rust_Strings "HOL-Library.Log_Nat"
begin

text \<open>
  \<open>check_system_time_error\<close> (\<open>src/udp/client.rs\<close>): the client asks a web service for the time and
  reports by how many hours its own clock is off. The outcome of the web request is an argument.
  What the function uses of the standard library is modelled: \<open>abs_diff\<close>, subtraction of \<open>i64\<close> with
  or without overflow checks, and the two roundings of \<open>f32\<close> (to nearest, ties to even; all
  numbers here are in the normal range).
\<close>

subsection \<open>Arithmetic\<close>

definition abs_diff_i64 :: "i64 \<Rightarrow> i64 \<Rightarrow> u64" where
  "abs_diff_i64 a b = word_of_int \<bar>sint a - sint b\<bar>"

text \<open>Subtraction panics on overflow in a build with overflow checks and wraps in one without.\<close>

definition sub_i64 :: "bool \<Rightarrow> i64 \<Rightarrow> i64 \<Rightarrow> (i64, 'e) res" where
  "sub_i64 checks a b = (if checks \<and> \<not> in_i64 (sint a - sint b) then Panic else Ok (a - b))"

text \<open>An \<open>f32\<close> is known by its value.\<close>

type_synonym f32 = rat

definition round_half_even :: "rat \<Rightarrow> int" where
  "round_half_even x =
    (let f = \<lfloor>x\<rfloor>; d = x - of_int f in
     if d < 1 / 2 then f else if d > 1 / 2 then f + 1 else if even f then f else f + 1)"

definition ilog2 :: "rat \<Rightarrow> int" where
  "ilog2 x = (let (p, q) = quotient_of x; k = bitlen p - bitlen q in if x < 2 powi k then k - 1 else k)"

text \<open>A fraction of 24 bits.\<close>

definition f32_round :: "rat \<Rightarrow> f32" where
  "f32_round x =
    (if x = 0 then 0
     else let e = ilog2 \<bar>x\<bar> - 23 in of_int (round_half_even (x / 2 powi e)) * 2 powi e)"

definition f32_of_i64 :: "i64 \<Rightarrow> f32" where
  "f32_of_i64 w = f32_round (of_int (sint w))"

definition f32_div :: "f32 \<Rightarrow> f32 \<Rightarrow> f32" where
  "f32_div a b = f32_round (a / b)"

subsection \<open>The check\<close>

datatype http_outcome = HttpTimedOut | HttpError | HttpResponse "string option"

definition check_system_time_error :: "bool \<Rightarrow> i64 \<Rightarrow> http_outcome \<Rightarrow> (f32 option, unit) res" where
  "check_system_time_error checks system_time outcome =
    (case outcome of
       HttpTimedOut \<Rightarrow> Ok None
     | HttpError \<Rightarrow> Ok None
     | HttpResponse None \<Rightarrow> Ok None
     | HttpResponse (Some body) \<Rightarrow>
         (case strip_prefix ''{\"unix_timestamp\":'' body of
            None \<Rightarrow> Ok None
          | Some body \<Rightarrow>
              (case strip_suffix ''}'' body of
                 None \<Rightarrow> Ok None
               | Some body \<Rightarrow>
                   (case parse_i64 body of
                      None \<Rightarrow> Ok None
                    | Some tm \<Rightarrow>
                        if abs_diff_i64 tm system_time > 5
                        then bind_res (sub_i64 checks system_time tm)
                               (\<lambda>d. Ok (Some (f32_div (f32_of_i64 d) 3600)))
                        else Ok None))))"

subsection \<open>Answers of the service\<close>

text \<open>The body of a well-formed answer.\<close>

definition time_answer :: "int \<Rightarrow> string" where
  "time_answer n = ''{\"unix_timestamp\":'' @ decimal n @ ''}''"

subsection \<open>Rounding\<close>

lemma round_half_even_error: "\<bar>of_int (round_half_even x) - x\<bar> \<le> 1 / 2"
proof -
  have "of_int \<lfloor>x\<rfloor> \<le> x" "x < of_int \<lfloor>x\<rfloor> + 1" by linarith+
  then show ?thesis by (simp add: round_half_even_def Let_def)
qed

lemma bitlen_power:
  assumes "n > 0"
  shows "(2::rat) powi (bitlen n - 1) \<le> of_int n" "of_int n < (2::rat) powi bitlen n"
proof -
  have b: "bitlen n \<ge> 1" "2 ^ nat (bitlen n - 1) \<le> n" "n < 2 ^ nat (bitlen n)"
    using assms bitlen_bounds [of n] bitlen_nonneg [of n] bitlen_eq_zero_iff [of n] by auto
  have p: "(2::rat) powi k = of_int (2 ^ nat k)" if "k \<ge> 0" for k :: int
    using that by (simp add: power_int_def)
  show "(2::rat) powi (bitlen n - 1) \<le> of_int n" "of_int n < (2::rat) powi bitlen n"
    using b by (simp_all only: p of_int_le_iff of_int_less_iff)
qed

lemma ilog2_bounds:
  assumes "x > 0"
  shows "2 powi ilog2 x \<le> x" "x < 2 powi (ilog2 x + 1)"
proof -
  obtain p q where pq: "quotient_of x = (p, q)" by (cases "quotient_of x")
  have q: "q > 0" using quotient_of_denom_pos [OF pq] .
  have x: "x = of_int p / of_int q" using quotient_of_div [OF pq] .
  with assms q have p: "p > 0" by (simp add: zero_less_divide_iff)
  let ?k = "bitlen p - bitlen q"
  have "(2::rat) powi (?k - 1) = 2 powi (bitlen p - 1) / 2 powi bitlen q"
    by (simp add: power_int_diff)
  also have "\<dots> \<le> of_int p / of_int q"
    using bitlen_power [OF p] bitlen_power [OF q] p q by (intro frac_le) auto
  finally have lower: "2 powi (?k - 1) \<le> x" by (simp add: x)
  have "of_int p / of_int q < (2::rat) powi bitlen p / 2 powi (bitlen q - 1)"
    using bitlen_power [OF p] bitlen_power [OF q] p q by (intro frac_less) auto
  also have "\<dots> = 2 powi (?k + 1)" by (simp add: power_int_diff power_int_add)
  finally have upper: "x < 2 powi (?k + 1)" by (simp add: x)
  from lower upper show "2 powi ilog2 x \<le> x" "x < 2 powi (ilog2 x + 1)"
    by (auto simp: ilog2_def pq Let_def)
qed

lemma f32_round_error: "\<bar>f32_round x - x\<bar> \<le> \<bar>x\<bar> / 2 ^ 24"
proof (cases "x = 0")
  case False
  let ?e = "ilog2 \<bar>x\<bar> - 23"
  have pos: "(2::rat) powi ?e > 0" by simp
  have "f32_round x - x = (of_int (round_half_even (x / 2 powi ?e)) - x / 2 powi ?e) * 2 powi ?e"
    using False by (simp add: f32_round_def Let_def field_simps)
  then have "\<bar>f32_round x - x\<bar> \<le> 1 / 2 * 2 powi ?e"
    using round_half_even_error [of "x / 2 powi ?e"] pos by (simp only: abs_mult abs_of_pos mult_right_mono)
  also have "\<dots> = 2 powi ilog2 \<bar>x\<bar> / 2 ^ 24" by (simp add: power_int_diff)
  also have "\<dots> \<le> \<bar>x\<bar> / 2 ^ 24" using ilog2_bounds(1) [of "\<bar>x\<bar>"] False by (simp add: divide_right_mono)
  finally show ?thesis .
qed (simp add: f32_round_def)

text \<open>The difference in hours, after both roundings.\<close>

lemma hours_error:
  "\<bar>3600 * f32_div (f32_round d) 3600 - d\<bar> \<le> \<bar>d\<bar> / 2 ^ 22"
proof -
  let ?y = "f32_round d"
  have y: "\<bar>?y - d\<bar> \<le> \<bar>d\<bar> / 2 ^ 24" by (rule f32_round_error)
  have "\<bar>f32_div ?y 3600 - ?y / 3600\<bar> \<le> \<bar>?y / 3600\<bar> / 2 ^ 24"
    unfolding f32_div_def by (rule f32_round_error)
  then have z: "\<bar>3600 * f32_div ?y 3600 - ?y\<bar> \<le> \<bar>?y\<bar> / 2 ^ 24" by (simp add: abs_if split: if_splits)
  have "\<bar>?y\<bar> \<le> 2 * \<bar>d\<bar>" using y by (simp add: abs_if split: if_splits)
  with y z show ?thesis by (simp add: abs_if split: if_splits)
qed

lemma hours_sign: "sgn (f32_div (f32_round d) 3600) = sgn d"
proof (cases d "0::rat" rule: linorder_cases)
  case equal
  then show ?thesis by (simp add: f32_round_def f32_div_def)
qed (use hours_error [of d] in \<open>auto simp: sgn_if abs_if split: if_splits\<close>)

lemma sgn_of_int_rat: "sgn (of_int i :: rat) = of_int (sgn i)"
  by (simp add: sgn_if)

lemma sint_diff_bounds: "\<bar>sint (a :: i64) - sint (b :: i64)\<bar> < 2 ^ 64" "in_i64 (sint (a :: i64))"
  using sint_greater_eq [of a] sint_less [of a] sint_greater_eq [of b] sint_less [of b]
  by (simp_all add: in_i64_def)

lemma abs_diff_i64_gt: "abs_diff_i64 a b > 5 \<longleftrightarrow> \<bar>sint a - sint b\<bar> > 5"
  using sint_diff_bounds(1) [of a b]
  by (simp add: abs_diff_i64_def word_less_def uint_word_of_int)

lemma sint_sub_i64:
  fixes a b :: i64
  shows "in_i64 (sint a - sint b) \<Longrightarrow> sint (a - b) = sint a - sint b"
    and "\<not> in_i64 (sint a - sint b) \<Longrightarrow> sgn (sint (a - b)) = - sgn (sint a - sint b)"
proof -
  let ?d = "sint a - sint b"
  have s: "sint (a - b) = (?d + 2 ^ 63) mod 2 ^ 64 - 2 ^ 63"
    by (simp add: sint_word_ariths signed_take_bit_eq_take_bit_shift take_bit_eq_mod)
  show "sint (a - b) = ?d" if "in_i64 ?d"
    using that by (simp add: s in_i64_def)
  show "sgn (sint (a - b)) = - sgn ?d" if "\<not> in_i64 ?d"
  proof (cases "?d \<ge> 0")
    case True
    have "(?d + 2 ^ 63) mod 2 ^ 64 = (?d + 2 ^ 63 - 2 ^ 64) mod 2 ^ 64" by (simp only: minus_mod_self2)
    also have "\<dots> = ?d + 2 ^ 63 - 2 ^ 64"
      using that True sint_diff_bounds(1) [of a b] by (intro mod_pos_pos_trivial) (simp_all add: in_i64_def)
    finally show ?thesis using that True sint_diff_bounds(1) [of a b] by (simp add: s in_i64_def sgn_if)
  next
    case False
    have "(?d + 2 ^ 63) mod 2 ^ 64 = (?d + 2 ^ 63 + 2 ^ 64) mod 2 ^ 64" by (simp only: mod_add_self2)
    also have "\<dots> = ?d + 2 ^ 63 + 2 ^ 64"
      using that False sint_diff_bounds(1) [of a b] by (intro mod_pos_pos_trivial) (simp_all add: in_i64_def)
    finally show ?thesis using that False sint_diff_bounds(1) [of a b] by (simp add: s in_i64_def sgn_if)
  qed
qed

subsection \<open>Properties\<close>

text \<open>The number in the service's answer: an optional sign and at least one digit.\<close>

definition numeral_of :: "string \<Rightarrow> int \<Rightarrow> bool" where
  "numeral_of s n \<longleftrightarrow> (\<exists>ds v. ds \<noteq> [] \<and> digits_value 0 ds = Some v
     \<and> (s = ds \<and> n = v \<or> s = CHR ''+'' # ds \<and> n = v \<or> s = CHR ''-'' # ds \<and> n = - v))"

definition time_answered :: "http_outcome \<Rightarrow> int \<Rightarrow> bool" where
  "time_answered outcome n \<longleftrightarrow> in_i64 n
     \<and> (\<exists>s. numeral_of s n \<and> outcome = HttpResponse (Some (''{\"unix_timestamp\":'' @ s @ ''}'')))"

lemma numeral_of_minus: "numeral_of (CHR ''-'' # cs) n \<longleftrightarrow> cs \<noteq> [] \<and> (\<exists>v. digits_value 0 cs = Some v \<and> n = - v)"
  by (auto simp: numeral_of_def signs_no_digits)

lemma numeral_of_plus: "numeral_of (CHR ''+'' # cs) n \<longleftrightarrow> cs \<noteq> [] \<and> digits_value 0 cs = Some n"
  by (auto simp: numeral_of_def signs_no_digits)

lemma numeral_of_digits:
  "c \<noteq> CHR ''-'' \<Longrightarrow> c \<noteq> CHR ''+'' \<Longrightarrow> numeral_of (c # cs) n \<longleftrightarrow> digits_value 0 (c # cs) = Some n"
  by (auto simp: numeral_of_def simp del: digits_value.simps)

lemma parse_i64_numeral: "parse_i64 s = Some w \<longleftrightarrow> (\<exists>n. numeral_of s n \<and> in_i64 n \<and> w = word_of_int n)"
proof (cases s)
  case (Cons c cs)
  consider (minus) "c = CHR ''-''" | (plus) "c = CHR ''+''" | (digits) "c \<noteq> CHR ''-''" "c \<noteq> CHR ''+''" by blast
  then show ?thesis
  proof cases
    case minus
    show ?thesis unfolding Cons minus numeral_of_minus by (auto simp: parse_i64_def Let_def split: option.splits)
  next
    case plus
    show ?thesis unfolding Cons plus numeral_of_plus by (auto simp: parse_i64_def Let_def split: option.splits)
  next
    case digits
    show ?thesis unfolding Cons numeral_of_digits [OF digits] using digits
      by (auto simp: parse_i64_def Let_def simp del: digits_value.simps split: option.splits)
  qed
qed (simp add: parse_i64_def numeral_of_def)

lemma strip_prefix_Some: "strip_prefix p s = Some t \<longleftrightarrow> s = p @ t"
  by (auto simp: strip_prefix_def) (metis append_take_drop_id)

lemma strip_suffix_Some: "strip_suffix p s = Some t \<longleftrightarrow> s = t @ p"
  by (auto simp: strip_suffix_def strip_prefix_Some) (metis rev_append rev_rev_ident)

lemma time_answered_check:
  assumes "time_answered outcome n"
  shows "check_system_time_error checks now outcome =
    (if abs_diff_i64 (word_of_int n) now > 5
     then bind_res (sub_i64 checks now (word_of_int n)) (\<lambda>d. Ok (Some (f32_div (f32_of_i64 d) 3600))) else Ok None)"
proof -
  from assms obtain s where s: "numeral_of s n" "in_i64 n" and o: "outcome = HttpResponse (Some (''{\"unix_timestamp\":'' @ s @ ''}''))"
    by (auto simp: time_answered_def)
  have "parse_i64 s = Some (word_of_int n)" using s parse_i64_numeral by blast
  then show ?thesis
    unfolding o check_system_time_error_def http_outcome.case option.case strip_prefix_append strip_suffix_append by simp
qed

lemma not_answered_check:
  assumes "\<nexists>n. time_answered outcome n"
  shows "check_system_time_error checks now outcome = Ok None"
proof (rule ccontr)
  assume "check_system_time_error checks now outcome \<noteq> Ok None"
  then obtain body b s tm where "outcome = HttpResponse (Some body)" "strip_prefix ''{\"unix_timestamp\":'' body = Some b"
    "strip_suffix ''}'' b = Some s" "parse_i64 s = Some tm"
    unfolding check_system_time_error_def by (auto split: http_outcome.splits option.splits)
  then have "\<exists>n. time_answered outcome n"
    unfolding strip_prefix_Some strip_suffix_Some parse_i64_numeral time_answered_def by blast
  with assms show False by blast
qed

text \<open>C38: What the check makes of every outcome of the web request. If the service did not answer in time,
  the request failed, or the body is not of the form that holds a number in the range of
  \<open>i64\<close>, it reports nothing. If it answered the time \<open>n\<close>: within five seconds of it nothing is
  reported. Otherwise it reports the difference in hours, with the right sign and an
  error below one part in four million; but if the difference leaves \<open>i64\<close>, the subtraction
  panics in a build with overflow checks and reports the wrong sign in one without.\<close>

theorem time_check_outcome:
  "let r = check_system_time_error checks now outcome in
    ((\<nexists>n. time_answered outcome n) \<longrightarrow> r = Ok None)
    \<and> (\<forall>n. time_answered outcome n \<longrightarrow>
        (let d = sint now - n in
         if \<bar>d\<bar> \<le> 5 then r = Ok None
         else if in_i64 d
           then \<exists>e. r = Ok (Some e) \<and> \<bar>3600 * e - of_int d\<bar> \<le> of_int \<bar>d\<bar> / 2 ^ 22 \<and> sgn e = of_int (sgn d)
         else if checks then r = Panic
           else \<exists>e. r = Ok (Some e) \<and> sgn e = - of_int (sgn d)))"
proof -
  define r where "r = check_system_time_error checks now outcome"
  have "let d = sint now - n in
      if \<bar>d\<bar> \<le> 5 then r = Ok None
      else if in_i64 d
        then \<exists>e. r = Ok (Some e) \<and> \<bar>3600 * e - of_int d\<bar> \<le> of_int \<bar>d\<bar> / 2 ^ 22 \<and> sgn e = of_int (sgn d)
      else if checks then r = Panic
        else \<exists>e. r = Ok (Some e) \<and> sgn e = - of_int (sgn d)" if "time_answered outcome n" for n
  proof -
    let ?tm = "word_of_int n :: i64"
    define d where "d = sint now - n"
    have n: "sint ?tm = n" using that by (simp add: time_answered_def in_i64_def int_word_sint)
    have far: "abs_diff_i64 ?tm now > 5 \<longleftrightarrow> \<bar>d\<bar> > 5" by (simp add: abs_diff_i64_gt n d_def abs_minus_commute)
    note r = time_answered_check [OF that, of checks now, folded r_def, unfolded far]
    note sub = sint_sub_i64 [of now ?tm, unfolded n, folded d_def]
    have sgn_hours: "sgn (f32_div (f32_of_i64 w) 3600) = of_int (sgn (sint w))" for w
      by (simp only: f32_of_i64_def hours_sign sgn_of_int_rat)
    have "f32_of_i64 (now - ?tm) = f32_round (of_int d)" if "in_i64 d"
      using sub(1) [OF that] by (simp only: f32_of_i64_def)
    then show ?thesis
      using sub hours_error [of "of_int d"] hours_sign [of "of_int d", unfolded sgn_of_int_rat] sgn_hours [of "now - ?tm"]
      by (simp add: r sub_i64_def n Let_def flip: d_def)
  qed
  then show ?thesis unfolding Let_def r_def [symmetric] using not_answered_check r_def by blast
qed

lemma time_answer_answered: "in_i64 n \<Longrightarrow> time_answered (HttpResponse (Some (time_answer n))) n"
proof -
  assume n: "in_i64 n"
  from parse_decimal [OF n] obtain m where m: "numeral_of (decimal n) m" "in_i64 m" "(word_of_int n :: i64) = word_of_int m"
    unfolding parse_i64_numeral by blast
  then have "sint (word_of_int n :: i64) = sint (word_of_int m :: i64)" by simp
  with n m(2) have "m = n" by (simp add: in_i64_def int_word_sint)
  with m n show ?thesis by (auto simp: time_answered_def time_answer_def)
qed

text \<open>A clock 7 s ahead, one 5 s behind, an answer that no clock can be compared with, and a body of another form.\<close>

theorem time_check_outcome_witness:
  "(\<exists>e. check_system_time_error True 1000 (HttpResponse (Some (time_answer 993))) = Ok (Some e)
      \<and> \<bar>3600 * e - 7\<bar> \<le> 7 / 2 ^ 22 \<and> sgn e = 1)
   \<and> check_system_time_error True 1000 (HttpResponse (Some (time_answer 1005))) = Ok None
   \<and> check_system_time_error True 1000 (HttpResponse (Some (time_answer (- (2 ^ 63))))) = Panic
   \<and> check_system_time_error True 1000 (HttpResponse (Some ''{}'')) = Ok None"
proof -
  have answered: "time_answered (HttpResponse (Some (time_answer 993))) 993"
    "time_answered (HttpResponse (Some (time_answer 1005))) 1005"
    "time_answered (HttpResponse (Some (time_answer (- (2 ^ 63))))) (- (2 ^ 63))"
    by (rule time_answer_answered, simp add: in_i64_def)+
  have "\<nexists>n. time_answered (HttpResponse (Some ''{}'')) n" by (auto simp: time_answered_def)
  moreover note outcome = time_check_outcome [of True 1000, unfolded Let_def, THEN conjunct2, rule_format]
  note outcome [OF answered(1)] outcome [OF answered(2)] outcome [OF answered(3)]
    time_check_outcome [of True 1000 "HttpResponse (Some ''{}'')", unfolded Let_def, THEN conjunct1]
  ultimately show ?thesis by (simp add: in_i64_def)
qed

end
