(* ===== verification/Udp_Client.thy ===== *)
theory Udp_Client
  imports Udp_Messages Interface_Tracker Peer_Table Hole_Punch System_Time
begin

text \<open>
  \<open>UdpConnectionEstablisher\<close> (\<open>src/udp/client.rs\<close>): the client that asks the rendezvous
  server for its trusted peers and punches a hole to each peer the server announces. Its
  record extends the table of trusted peers of \<open>Peer_Table\<close>. What one call of \<open>poll_accept\<close>
  reads from its surroundings (clocks, interfaces, the operating system's answers to
  \<open>bind\<close>, the datagram received, a random number, the events of the hole punch) is the
  record \<open>poll_env\<close>.
\<close>

definition REQUEST_PLACEMENT_INTERVAL :: nat where "REQUEST_PLACEMENT_INTERVAL = 2"

subsection \<open>Sockets\<close>

text \<open>
  The operating system's answers while a socket is made: a handle for the first \<open>bind\<close>, one
  for the fallback, and whether \<open>bind_device\<close> succeeds.
  A socket has its local address, the
  device it is bound to and the peer it is connected to, which \<open>bind\<close> leaves unset.
\<close>

record os_bind =
  os_first :: "nat option"
  os_fallback :: "nat option"
  os_device_ok :: bool

record udp_socket =
  so_handle :: nat
  so_bound :: ipv4
  so_device :: "string option"
  so_peer :: "socket_addr option"

definition UNSPECIFIED :: ipv4 where "UNSPECIFIED = Ipv4 0 0 0 0"

text \<open>\<open>windows\<close> stands for \<open>cfg!(windows)\<close>.\<close>

definition new_udp_socket :: "bool \<Rightarrow> os_bind \<Rightarrow> interface option \<Rightarrow> (udp_socket, unit) res" where
  "new_udp_socket windows os best_interface =
    bind_res
      (case best_interface of
         Some i \<Rightarrow> if windows then (case ip_of i of IpV4 addr \<Rightarrow> Ok addr | IpV6 _ \<Rightarrow> Panic) else Ok UNSPECIFIED
       | None \<Rightarrow> Ok UNSPECIFIED)
      (\<lambda>addr. case os_first os of
         None \<Rightarrow> (case os_fallback os of
             Some h \<Rightarrow> Ok \<lparr>so_handle = h, so_bound = UNSPECIFIED, so_device = None, so_peer = None\<rparr>
           | None \<Rightarrow> Panic)
       | Some h \<Rightarrow> Ok \<lparr>so_handle = h, so_bound = addr,
           so_device = (case best_interface of
               Some i \<Rightarrow> if \<not> windows \<and> os_device_ok os then Some (if_name i) else None
             | None \<Rightarrow> None), so_peer = None\<rparr>)"

subsection \<open>State\<close>

record 'sk establisher = peer_table +
  p2p_server_addr :: sockaddr_v4
  last_request_tm :: "instant option"
  est_key :: 'sk
  session_id :: u32
  est_socket :: udp_socket
  p2p_interface_tracker :: interface_tracker
  cur_interface :: "string option"

text \<open>
  \<open>new\<close>. The check of the system time comes first; what it reports is only logged, but it may
  panic (\<open>checks\<close>: overflow checks, \<open>system_time\<close> and \<open>outcome\<close>: the clock and the web request).
  The tracker is asked twice, for the socket and for the name; \<open>sid\<close> is \<open>random()\<close>.
\<close>

definition establisher_new ::
  "bool \<Rightarrow> i64 \<Rightarrow> http_outcome \<Rightarrow> bool \<Rightarrow> os_bind \<Rightarrow> interface list \<Rightarrow> interface list \<Rightarrow> u32 \<Rightarrow> 'sk \<Rightarrow>
   sockaddr_v4 \<Rightarrow> ('sk establisher, unit) res" where
  "establisher_new checks system_time outcome windows os ifs ifs' sid key server_addr =
    bind_res (check_system_time_error checks system_time outcome) (\<lambda>_.
    let (best, tr) = current_interface ifs tracker_new in
    bind_res (new_udp_socket windows os best) (\<lambda>socket.
    let (best', tr') = current_interface ifs' tr in
    Ok \<lparr>trusted_remotes = [], last_trusted_peer_offset = pubkey_default,
        p2p_server_addr = server_addr, last_request_tm = None, est_key = key, session_id = sid,
        est_socket = socket, p2p_interface_tracker = tr',
        cur_interface = map_option if_name best'\<rparr>))"

subsection \<open>One call of \<open>poll_accept\<close>\<close>

record new_connection =
  nc_pubkey :: pubkey
  nc_remote_addr :: socket_addr
  nc_socket :: udp_socket
  nc_is_listener :: bool

datatype client_error =
    PlacingRequest parse_error
  | ParsingMessage parse_error
  | ReceivingMessage
  | NotTrusted
  | HandlingInitiate sockaddr_v4 u32 hole_punch_error

datatype recv_outcome = RecvFrom bytes socket_addr | RecvFailed | RecvTimedOut

record 'dt poll_env =
  pe_interfaces :: "interface list"
  pe_bind :: os_bind
  pe_now :: instant
  pe_list_now :: instant
  pe_utc :: 'dt
  pe_sent_at :: instant
  pe_recv :: recv_outcome
  pe_msg_now :: instant
  pe_interfaces' :: "interface list"
  pe_bind' :: os_bind
  pe_random :: u32
  pe_punch :: punch_trace
  pe_failed_at :: instant

text \<open>A packet is what was sent from which socket to which address.\<close>

type_synonym packet = "udp_socket \<times> bytes \<times> socket_addr"

text \<open>
  What a call comes to: it is still in the hole punch when the events end, it panics, or it
  returns its \<open>Option<anyhow::Result<NewP2pConnection>>\<close>, with the new state and the packets
  sent.
\<close>

datatype 'sk poll_outcome =
    Waiting
  | Panicked
  | Answered (po_answer: "(new_connection, client_error) res option")
      (po_state: "'sk establisher") (po_sent: "packet list")

definition refresh_socket :: "bool \<Rightarrow> 'dt poll_env \<Rightarrow> 'sk establisher \<Rightarrow> ('sk establisher, unit) res" where
  "refresh_socket windows env st =
    (let (cur, tr) = current_interface (pe_interfaces env) (p2p_interface_tracker st);
         st = st\<lparr>p2p_interface_tracker := tr\<rparr>;
         cur_interface_name = map_option if_name cur
     in if cur_interface_name \<noteq> cur_interface st
        then bind_res (new_udp_socket windows (pe_bind env) cur) (\<lambda>socket.
             Ok (st\<lparr>est_socket := socket, cur_interface := cur_interface_name\<rparr>))
        else Ok st)"

definition request_due :: "instant \<Rightarrow> 'sk establisher \<Rightarrow> bool" where
  "request_due now st \<longleftrightarrow> (case last_request_tm st of
      None \<Rightarrow> True | Some i \<Rightarrow> as_secs (elapsed now i) > REQUEST_PLACEMENT_INTERVAL)"

definition place_connection_requests ::
  "'dt chrono \<Rightarrow> 'sk ed25519 \<Rightarrow> 'dt poll_env \<Rightarrow> pubkey list \<Rightarrow> 'sk establisher \<Rightarrow>
   ('sk establisher \<times> packet list, parse_error) res" where
  "place_connection_requests ch ed env peers st =
    bind_res (signed_to_bytes ch ed (pe_utc env) (est_key st) (ConnectionRequest peers (session_id st)))
      (\<lambda>payload. Ok (st\<lparr>last_request_tm := Some (pe_sent_at env)\<rparr>,
         [(est_socket st, payload, SockV4 (p2p_server_addr st))]))"

text \<open>An \<open>InitiateConnectionRequest\<close>; \<open>sent\<close> are the packets the call has sent so far.\<close>

definition handle_initiate ::
  "bool \<Rightarrow> 'dt poll_env \<Rightarrow> packet list \<Rightarrow> pubkey \<Rightarrow> sockaddr_v4 \<Rightarrow> u32 \<Rightarrow> bool \<Rightarrow> 'sk establisher \<Rightarrow>
   'sk poll_outcome" where
  "handle_initiate windows env sent peer_pubkey peer_address remote_session_id is_listener st =
    (case bt_get (trusted_remotes st) peer_pubkey of
       None \<Rightarrow> Answered (Some (Err NotTrusted)) st sent
     | Some peer \<Rightarrow>
         if \<not> is_discovery_enabled (pe_msg_now env) peer then Answered None st sent
         else if last_accepted_session_id peer = Some remote_session_id then Answered None st sent
         else
           (let peer = peer\<lparr>last_accepted_session_id := Some remote_session_id\<rparr>;
                (best, tr) = current_interface (pe_interfaces' env) (p2p_interface_tracker st)
            in case new_udp_socket windows (pe_bind' env) best of
                 Err e \<Rightarrow> Panicked
               | Panic \<Rightarrow> Panicked
               | Ok fresh \<Rightarrow>
                   (let socket = est_socket st;
                        st = st\<lparr>p2p_interface_tracker := tr, est_socket := fresh, session_id := pe_random env\<rparr>
                    in case hole_punch (SockV4 peer_address) (pe_punch env) of
                         None \<Rightarrow> Waiting
                       | Some (Panic, _) \<Rightarrow> Panicked
                       | Some (Err e, punches) \<Rightarrow>
                           Answered (Some (Err (HandlingInitiate peer_address remote_session_id e)))
                             (st\<lparr>trusted_remotes :=
                                   bt_insert peer_pubkey (punch_failed (pe_failed_at env) peer) (trusted_remotes st),
                                 last_request_tm := None\<rparr>)
                             (sent @ map (Pair socket) punches)
                       | Some (Ok addr, punches) \<Rightarrow>
                           Answered (Some (Ok \<lparr>nc_pubkey = peer_pubkey, nc_remote_addr = addr,
                                               nc_socket = socket, nc_is_listener = is_listener\<rparr>))
                             (st\<lparr>trusted_remotes :=
                                   bt_insert peer_pubkey (punch_succeeded peer) (trusted_remotes st),
                                 last_request_tm := None\<rparr>)
                             (sent @ map (Pair socket) punches))))"

definition receive_phase :: "bool \<Rightarrow> 'dt poll_env \<Rightarrow> packet list \<Rightarrow> 'sk establisher \<Rightarrow> 'sk poll_outcome" where
  "receive_phase windows env sent st =
    (case pe_recv env of
       RecvTimedOut \<Rightarrow> Answered None st sent
     | RecvFailed \<Rightarrow> Answered (Some (Err ReceivingMessage)) st sent
     | RecvFrom msg src \<Rightarrow>
         if src \<noteq> SockV4 (p2p_server_addr st) then Answered None st sent
         else (case from_server_try_parse msg of
             Ok (InitiateConnectionRequest peer_pubkey peer_address remote_session_id is_listener) \<Rightarrow>
               handle_initiate windows env sent peer_pubkey peer_address remote_session_id is_listener st
           | Ok (LostConnectionRequest peer_pubkey peer_address) \<Rightarrow>
               Answered None (st\<lparr>session_id := pe_random env\<rparr>) sent
           | Err e \<Rightarrow> Answered (Some (Err (ParsingMessage e))) st sent
           | Panic \<Rightarrow> Panicked))"

definition poll_accept ::
  "'dt chrono \<Rightarrow> 'sk ed25519 \<Rightarrow> bool \<Rightarrow> 'dt poll_env \<Rightarrow> 'sk establisher \<Rightarrow> 'sk poll_outcome" where
  "poll_accept ch ed windows env st =
    (case refresh_socket windows env st of
       Ok st \<Rightarrow>
         if request_due (pe_now env) st then
           (let (peer_pubkeys_list, st) = new_available_remotes_list (pe_list_now env) st in
            if peer_pubkeys_list = [] then Answered None st []
            else (case place_connection_requests ch ed env peer_pubkeys_list st of
                Ok (st, sent) \<Rightarrow> receive_phase windows env sent st
              | Err e \<Rightarrow> Answered (Some (Err (PlacingRequest e))) st []
              | Panic \<Rightarrow> Panicked))
         else receive_phase windows env [] st
     | _ \<Rightarrow> Panicked)"

subsection \<open>Sockets and the request phase\<close>

text \<open>The operating system gives a socket, if need be the fallback one.\<close>

definition os_ok :: "os_bind \<Rightarrow> bool" where
  "os_ok os \<longleftrightarrow> os_first os \<noteq> None \<or> os_fallback os \<noteq> None"

lemma new_udp_socket_not_Err [simp]: "new_udp_socket windows os best \<noteq> Err e"
proof
  assume "new_udp_socket windows os best = Err e"
  then show False
    by (cases best; cases windows; cases "ip_of (the best)"; cases "os_first os"; cases "os_fallback os")
      (simp_all add: new_udp_socket_def)
qed

lemma new_udp_socket_returns:
  assumes "os_ok os" and "best = fst (current_interface ifs tr)"
  shows "\<exists>s. new_udp_socket windows os best = Ok s"
proof (cases best)
  case None
  with assms(1) show ?thesis by (cases "os_first os") (auto simp: new_udp_socket_def os_ok_def)
next
  case (Some i)
  with assms(2) obtain a where "ip_of i = IpV4 a" by (metis current_interface_v4)
  with Some assms(1) show ?thesis by (cases "os_first os") (auto simp: new_udp_socket_def os_ok_def)
qed

lemma refresh_socket_not_Err [simp]: "refresh_socket windows env st \<noteq> Err e"
proof
  assume "refresh_socket windows env st = Err e"
  then show False
    by (cases "new_udp_socket windows (pe_bind env) (fst (current_interface (pe_interfaces env) (p2p_interface_tracker st)))")
      (auto simp: refresh_socket_def Let_def split: prod.splits if_splits)
qed

text \<open>What the interface check leaves alone.\<close>

definition same_client :: "'sk establisher \<Rightarrow> 'sk establisher \<Rightarrow> bool" where
  "same_client st st' \<longleftrightarrow> trusted_remotes st' = trusted_remotes st \<and> p2p_server_addr st' = p2p_server_addr st
     \<and> est_key st' = est_key st \<and> session_id st' = session_id st"

lemma refresh_socket_keeps:
  assumes "refresh_socket windows env st = Ok st1"
  shows "same_client st st1" "last_request_tm st1 = last_request_tm st"
    "last_trusted_peer_offset st1 = last_trusted_peer_offset st"
  using assms by (auto simp: refresh_socket_def same_client_def Let_def split: prod.splits if_splits)

lemma refresh_socket_returns:
  assumes "os_ok (pe_bind env)"
  shows "\<exists>st1. refresh_socket windows env st = Ok st1"
  using new_udp_socket_returns [OF assms refl, of windows "pe_interfaces env" "p2p_interface_tracker st"]
  by (auto simp: refresh_socket_def Let_def split: prod.splits)

lemma available_keeps:
  assumes "new_available_remotes_list now st = (ks, st')"
  shows "trusted_remotes st' = trusted_remotes st" "peer_table.more st' = peer_table.more st"
  using assms by (auto simp: new_available_remotes_list_def Let_def)

lemma same_more:
  assumes "peer_table.more (st' :: 'sk establisher) = peer_table.more st"
  shows "p2p_server_addr st' = p2p_server_addr st" "est_key st' = est_key st" "session_id st' = session_id st"
    "last_request_tm st' = last_request_tm st" "est_socket st' = est_socket st"
  using assms by (cases st; cases st'; simp)+

lemma signed_to_bytes_not_Err [simp]: "signed_to_bytes ch ed now key m \<noteq> Err e"
  by (cases m) (auto simp: signed_to_bytes_def payload_to_bytes_def)

lemma poll_placed:
  assumes "poll_accept ch ed windows env st = Answered r st' sent" and "refresh_socket windows env st = Ok st1"
    and "request_due (pe_now env) st1" and "new_available_remotes_list (pe_list_now env) st1 = (ks, st2)" and "ks \<noteq> []"
  obtains datagram where
    "signed_to_bytes ch ed (pe_utc env) (est_key st2) (ConnectionRequest ks (session_id st2)) = Ok datagram"
    "receive_phase windows env [(est_socket st2, datagram, SockV4 (p2p_server_addr st2))]
      (st2\<lparr>last_request_tm := Some (pe_sent_at env)\<rparr>) = Answered r st' sent"
  using assms
  by (cases "signed_to_bytes ch ed (pe_utc env) (est_key st2) (ConnectionRequest ks (session_id st2))")
    (auto simp: poll_accept_def place_connection_requests_def)

text \<open>A call with a request due: no peer to ask for, or a request sent.\<close>

lemma poll_due:
  assumes "poll_accept ch ed windows env st = Answered r st' sent" and "table_ok st"
    and due: "request_due (pe_now env) st" and st1: "refresh_socket windows env st = Ok st1"
  obtains (nobody) "r = None" "sent = []" "same_client st st'"
      "\<And>k. \<not> enabled_at (pe_list_now env) (trusted_remotes st) k" "last_request_tm st' = last_request_tm st"
  | (placed) st2 ks datagram where "same_client st st2" "last_request_tm st2 = Some (pe_sent_at env)"
      "ks = fst (new_available_remotes_list (pe_list_now env) st1)" "ks \<noteq> []"
      "signed_to_bytes ch ed (pe_utc env) (est_key st) (ConnectionRequest ks (session_id st)) = Ok datagram"
      "est_socket st2 = est_socket st1"
      "receive_phase windows env [(est_socket st1, datagram, SockV4 (p2p_server_addr st))] st2 = Answered r st' sent"
proof -
  note keep = refresh_socket_keeps [OF st1]
  have due1: "request_due (pe_now env) st1" using due keep(2) by (simp add: request_due_def)
  have ok1: "table_ok st1" using assms(2) keep(1) by (simp add: table_ok_def same_client_def)
  obtain ks st2 where l: "new_available_remotes_list (pe_list_now env) st1 = (ks, st2)" by fastforce
  note same = available_keeps [OF l] and more = same_more [OF available_keeps(2) [OF l]]
  have sc: "same_client st st2" using same(1) more keep(1) by (simp add: same_client_def)
  show ?thesis
  proof (cases "ks = []")
    case True
    with assms(1) st1 due1 l have "r = None" "sent = []" "st' = st2" by (auto simp: poll_accept_def)
    moreover have "\<not> enabled_at (pe_list_now env) (trusted_remotes st) k" for k
      using available_list_shape [OF ok1 l] True keep(1) by (simp add: same_client_def)
    ultimately show ?thesis using sc more(4) keep(2) by (intro nobody) simp_all
  next
    case False
    from poll_placed [OF assms(1) st1 due1 l False] obtain datagram where
      "signed_to_bytes ch ed (pe_utc env) (est_key st2) (ConnectionRequest ks (session_id st2)) = Ok datagram"
      "receive_phase windows env [(est_socket st2, datagram, SockV4 (p2p_server_addr st2))]
          (st2\<lparr>last_request_tm := Some (pe_sent_at env)\<rparr>) = Answered r st' sent" .
    then show ?thesis
      using sc l False more
      by (intro placed [of "st2\<lparr>last_request_tm := Some (pe_sent_at env)\<rparr>" ks datagram])
        (auto simp: same_client_def)
  qed
qed

text \<open>
  A call that returns has either found no peer to ask for, or come to its receive phase, with
  or without a request sent to the server just before.
\<close>

lemma poll_accept_cases:
  assumes "poll_accept ch ed windows env st = Answered r st' sent" and "table_ok st"
  obtains (nobody) "request_due (pe_now env) st" "r = None" "sent = []" "same_client st st'"
      "\<And>k. \<not> enabled_at (pe_list_now env) (trusted_remotes st) k" "last_request_tm st' = last_request_tm st"
  | (not_due) st1 where "\<not> request_due (pe_now env) st" "refresh_socket windows env st = Ok st1"
      "same_client st st1" "last_request_tm st1 = last_request_tm st"
      "receive_phase windows env [] st1 = Answered r st' sent"
  | (placed) st1 st2 ks datagram where "request_due (pe_now env) st" "refresh_socket windows env st = Ok st1"
      "same_client st st2" "last_request_tm st2 = Some (pe_sent_at env)"
      "ks = fst (new_available_remotes_list (pe_list_now env) st1)" "ks \<noteq> []"
      "signed_to_bytes ch ed (pe_utc env) (est_key st) (ConnectionRequest ks (session_id st)) = Ok datagram"
      "est_socket st2 = est_socket st1"
      "receive_phase windows env [(est_socket st1, datagram, SockV4 (p2p_server_addr st))] st2 = Answered r st' sent"
proof (cases "refresh_socket windows env st")
  case Panic
  with assms(1) show ?thesis by (simp add: poll_accept_def)
next
  case (Err e)
  then show ?thesis by simp
next
  case (Ok st1)
  note keep = refresh_socket_keeps [OF Ok]
  show ?thesis
  proof (cases "request_due (pe_now env) st")
    case False
    with keep(2) have "\<not> request_due (pe_now env) st1" by (simp add: request_due_def)
    with assms(1) Ok False keep show ?thesis by (intro not_due) (auto simp: poll_accept_def)
  next
    case True
    from assms this Ok show ?thesis
      by (rule poll_due) (use True Ok nobody placed in blast)+
  qed
qed

subsection \<open>The receive phase\<close>

text \<open>The state once a notification for peer \<open>k\<close> was acted on and its entry became \<open>p\<close>.\<close>

definition after_punch ::
  "interface_tracker \<Rightarrow> udp_socket \<Rightarrow> u32 \<Rightarrow> pubkey \<Rightarrow> peer_state \<Rightarrow> 'sk establisher \<Rightarrow> 'sk establisher" where
  "after_punch tr fresh sid k p st =
     st\<lparr>p2p_interface_tracker := tr, est_socket := fresh, session_id := sid,
        trusted_remotes := bt_insert k p (trusted_remotes st), last_request_tm := None\<rparr>"

lemma after_punch_sel [simp]:
  "trusted_remotes (after_punch tr fresh sid k p st) = bt_insert k p (trusted_remotes st)"
  "session_id (after_punch tr fresh sid k p st) = sid"
  "last_request_tm (after_punch tr fresh sid k p st) = None"
  "est_socket (after_punch tr fresh sid k p st) = fresh"
  "p2p_server_addr (after_punch tr fresh sid k p st) = p2p_server_addr st"
  "est_key (after_punch tr fresh sid k p st) = est_key st"
  by (simp_all add: after_punch_def)

lemma hole_punch_not_Panic [simp]: "hole_punch a tr \<noteq> Some (Panic, sent)"
  by (auto simp: hole_punch_def split: option.splits if_splits)

text \<open>An answer that does not come from a hole punch.\<close>

definition idle_answer :: "(new_connection, client_error) res option \<Rightarrow> bool" where
  "idle_answer r \<longleftrightarrow> (\<forall>c. r \<noteq> Some (Ok c)) \<and> (\<forall>a rid e. r \<noteq> Some (Err (HandlingInitiate a rid e)))"

lemma idle_answer_simps [simp]:
  "idle_answer None" "\<not> idle_answer (Some (Ok c))" "\<not> idle_answer (Some (Err (HandlingInitiate a rid e)))"
  "idle_answer (Some (Err NotTrusted))" "idle_answer (Some (Err (ParsingMessage pe)))"
  "idle_answer (Some (Err ReceivingMessage))" "idle_answer (Some (Err (PlacingRequest pe)))"
  by (simp_all add: idle_answer_def)

definition notified :: "pubkey \<Rightarrow> u32 \<Rightarrow> peer_state \<Rightarrow> peer_state" where
  "notified k rid p = p\<lparr>last_accepted_session_id := Some rid\<rparr>"

text \<open>A notification from an enabled peer with a new session: the hole is punched.\<close>

lemma handle_initiate_punch:
  assumes "handle_initiate windows env sent k a rid l st = Answered r st' sent'" and "bt_get (trusted_remotes st) k = Some p"
    and "\<not> (\<not> is_discovery_enabled (pe_msg_now env) p \<or> last_accepted_session_id p = Some rid)"
  obtains tr fresh out punches where "hole_punch (SockV4 a) (pe_punch env) = Some (out, punches)"
    "sent' = sent @ map (Pair (est_socket st)) punches"
    "case out of
        Ok dst \<Rightarrow> r = Some (Ok \<lparr>nc_pubkey = k, nc_remote_addr = dst, nc_socket = est_socket st, nc_is_listener = l\<rparr>)
          \<and> st' = after_punch tr fresh (pe_random env) k (punch_succeeded (notified k rid p)) st
      | Err e \<Rightarrow> r = Some (Err (HandlingInitiate a rid e))
          \<and> st' = after_punch tr fresh (pe_random env) k (punch_failed (pe_failed_at env) (notified k rid p)) st
      | Panic \<Rightarrow> False"
proof -
  obtain best tr where c: "current_interface (pe_interfaces' env) (p2p_interface_tracker st) = (best, tr)" by fastforce
  with assms obtain fresh where f: "new_udp_socket windows (pe_bind' env) best = Ok fresh"
    by (cases "new_udp_socket windows (pe_bind' env) best") (auto simp: handle_initiate_def)
  from assms c f obtain out punches where p: "hole_punch (SockV4 a) (pe_punch env) = Some (out, punches)"
    by (cases "hole_punch (SockV4 a) (pe_punch env)") (auto simp: handle_initiate_def)
  then have np: "out \<noteq> Panic" by auto
  note u = assms(1) [unfolded handle_initiate_def assms(2) option.case Let_def c case_prod_conv f res.case p]
  show ?thesis
  proof (rule that [OF p])
    show "sent' = sent @ map (Pair (est_socket st)) punches"
      using u assms(3) np by (cases out) (auto split: if_splits)
    show "case out of
        Ok dst \<Rightarrow> r = Some (Ok \<lparr>nc_pubkey = k, nc_remote_addr = dst, nc_socket = est_socket st, nc_is_listener = l\<rparr>)
          \<and> st' = after_punch tr fresh (pe_random env) k (punch_succeeded (notified k rid p)) st
      | Err e \<Rightarrow> r = Some (Err (HandlingInitiate a rid e))
          \<and> st' = after_punch tr fresh (pe_random env) k (punch_failed (pe_failed_at env) (notified k rid p)) st
      | Panic \<Rightarrow> False"
      using u assms(3) np by (cases out) (auto simp: after_punch_def notified_def split: if_splits)
  qed
qed

lemma handle_initiate_cases:
  assumes "handle_initiate windows env sent k a rid l st = Answered r st' sent'"
  obtains (untrusted) "bt_get (trusted_remotes st) k = None" "r = Some (Err NotTrusted)" "st' = st" "sent' = sent"
  | (ignored) p where "bt_get (trusted_remotes st) k = Some p" "r = None" "st' = st" "sent' = sent"
      "\<not> is_discovery_enabled (pe_msg_now env) p \<or> last_accepted_session_id p = Some rid"
  | (failed) p tr fresh e punches where "bt_get (trusted_remotes st) k = Some p"
      "is_discovery_enabled (pe_msg_now env) p" "last_accepted_session_id p \<noteq> Some rid"
      "hole_punch (SockV4 a) (pe_punch env) = Some (Err e, punches)"
      "r = Some (Err (HandlingInitiate a rid e))"
      "st' = after_punch tr fresh (pe_random env) k (punch_failed (pe_failed_at env) (notified k rid p)) st"
      "sent' = sent @ map (Pair (est_socket st)) punches"
  | (connected) p tr fresh dst punches where "bt_get (trusted_remotes st) k = Some p"
      "is_discovery_enabled (pe_msg_now env) p" "last_accepted_session_id p \<noteq> Some rid"
      "hole_punch (SockV4 a) (pe_punch env) = Some (Ok dst, punches)"
      "r = Some (Ok \<lparr>nc_pubkey = k, nc_remote_addr = dst, nc_socket = est_socket st, nc_is_listener = l\<rparr>)"
      "st' = after_punch tr fresh (pe_random env) k (punch_succeeded (notified k rid p)) st"
      "sent' = sent @ map (Pair (est_socket st)) punches"
proof (cases "bt_get (trusted_remotes st) k")
  case None
  with assms show ?thesis by (intro untrusted) (auto simp: handle_initiate_def)
next
  case (Some p)
  show ?thesis
  proof (cases "\<not> is_discovery_enabled (pe_msg_now env) p \<or> last_accepted_session_id p = Some rid")
    case True
    with assms Some show ?thesis by (intro ignored) (auto simp: handle_initiate_def split: if_splits)
  next
    case False
    obtain tr fresh out punches where
      punch: "hole_punch (SockV4 a) (pe_punch env) = Some (out, punches)" and sent: "sent' = sent @ map (Pair (est_socket st)) punches"
      and res: "case out of
          Ok dst \<Rightarrow> r = Some (Ok \<lparr>nc_pubkey = k, nc_remote_addr = dst, nc_socket = est_socket st, nc_is_listener = l\<rparr>)
            \<and> st' = after_punch tr fresh (pe_random env) k (punch_succeeded (notified k rid p)) st
        | Err e \<Rightarrow> r = Some (Err (HandlingInitiate a rid e))
            \<and> st' = after_punch tr fresh (pe_random env) k (punch_failed (pe_failed_at env) (notified k rid p)) st
        | Panic \<Rightarrow> False" by (rule handle_initiate_punch [OF assms Some False])
    show ?thesis
    proof (cases out)
      case (Ok dst)
      with False Some punch sent res show ?thesis by (intro connected [of p dst punches tr fresh]) auto
    next
      case (Err e)
      with False Some punch sent res show ?thesis by (intro failed [of p e punches tr fresh]) auto
    qed (use res in simp)
  qed
qed

lemma receive_phase_cases:
  assumes "receive_phase windows env sent st = Answered r st' sent'"
  obtains (unmoved) "st' = st" "sent' = sent" "idle_answer r"
  | (lost) msg k a where "pe_recv env = RecvFrom msg (SockV4 (p2p_server_addr st))"
      "from_server_try_parse msg = Ok (LostConnectionRequest k a)"
      "st' = st\<lparr>session_id := pe_random env\<rparr>" "r = None" "sent' = sent"
  | (initiate) msg k a rid l where "pe_recv env = RecvFrom msg (SockV4 (p2p_server_addr st))"
      "from_server_try_parse msg = Ok (InitiateConnectionRequest k a rid l)"
      "handle_initiate windows env sent k a rid l st = Answered r st' sent'"
proof -
  have quiet: thesis if "st' = st \<and> sent' = sent \<and> idle_answer r"
    using unmoved that by blast
  show ?thesis
  proof (cases "pe_recv env")
    case (RecvFrom msg src)
    show ?thesis
    proof (cases "src = SockV4 (p2p_server_addr st)")
      case False
      with assms RecvFrom show ?thesis by (intro quiet) (auto simp: receive_phase_def)
    next
      case True
      note u = assms [unfolded receive_phase_def RecvFrom recv_outcome.case True]
      show ?thesis
      proof (cases "from_server_try_parse msg")
        case (Ok m)
        with u RecvFrom True show ?thesis by (cases m) (auto intro: lost initiate)
      qed (use u in \<open>auto intro: quiet\<close>)
    qed
  qed (use assms in \<open>auto simp: receive_phase_def intro!: quiet\<close>)
qed

subsection \<open>A whole call\<close>

text \<open>The request that a call may send first.\<close>

definition request_sent ::
  "'dt chrono \<Rightarrow> 'sk ed25519 \<Rightarrow> 'dt poll_env \<Rightarrow> 'sk establisher \<Rightarrow> packet list \<Rightarrow> bool" where
  "request_sent ch ed env st reqs \<longleftrightarrow> reqs = [] \<or>
     (\<exists>sock ks datagram. reqs = [(sock, datagram, SockV4 (p2p_server_addr st))]
        \<and> request_due (pe_now env) st
        \<and> signed_to_bytes ch ed (pe_utc env) (est_key st) (ConnectionRequest ks (session_id st)) = Ok datagram
        \<and> 0 < length ks \<and> length ks \<le> 10 \<and> distinct ks
        \<and> (\<forall>k \<in> set ks. enabled_at (pe_list_now env) (trusted_remotes st) k))"

text \<open>The entry of a peer after a hole punch, and the answer of the call.\<close>

definition punch_entry :: "'dt poll_env \<Rightarrow> pubkey \<Rightarrow> u32 \<Rightarrow> peer_state \<Rightarrow> (socket_addr, hole_punch_error) res \<Rightarrow> peer_state" where
  "punch_entry env k rid p out = (case out of
      Ok _ \<Rightarrow> punch_succeeded (notified k rid p)
    | _ \<Rightarrow> punch_failed (pe_failed_at env) (notified k rid p))"

definition punch_answer ::
  "pubkey \<Rightarrow> sockaddr_v4 \<Rightarrow> u32 \<Rightarrow> bool \<Rightarrow> udp_socket \<Rightarrow> (socket_addr, hole_punch_error) res \<Rightarrow>
   (new_connection, client_error) res" where
  "punch_answer k a rid l sock out = (case out of
      Ok dst \<Rightarrow> Ok \<lparr>nc_pubkey = k, nc_remote_addr = dst, nc_socket = sock, nc_is_listener = l\<rparr>
    | Err e \<Rightarrow> Err (HandlingInitiate a rid e)
    | Panic \<Rightarrow> Panic)"

text \<open>A call that acted on a notification for peer \<open>k\<close>, whose entry was \<open>p\<close>.\<close>

definition punched ::
  "'dt poll_env \<Rightarrow> 'sk establisher \<Rightarrow> pubkey \<Rightarrow> peer_state \<Rightarrow> sockaddr_v4 \<Rightarrow> u32 \<Rightarrow> bool \<Rightarrow>
   (socket_addr, hole_punch_error) res \<Rightarrow> (bytes \<times> socket_addr) list \<Rightarrow> bool" where
  "punched env st k p a rid l out punches \<longleftrightarrow>
     (\<exists>msg. pe_recv env = RecvFrom msg (SockV4 (p2p_server_addr st))
        \<and> from_server_try_parse msg = Ok (InitiateConnectionRequest k a rid l))
     \<and> bt_get (trusted_remotes st) k = Some p
     \<and> is_discovery_enabled (pe_msg_now env) p \<and> last_accepted_session_id p \<noteq> Some rid
     \<and> hole_punch (SockV4 a) (pe_punch env) = Some (out, punches)"

lemma punched_cong:
  "same_client st st2 \<Longrightarrow> punched env st2 k p a rid l out punches = punched env st k p a rid l out punches"
  by (simp add: punched_def same_client_def)

lemma receive_phase_effect:
  assumes "receive_phase windows env reqs st = Answered r st' sent"
  obtains (quiet) "trusted_remotes st' = trusted_remotes st" "idle_answer r" "sent = reqs"
      "p2p_server_addr st' = p2p_server_addr st" "est_key st' = est_key st"
  | (tried) k p a rid l out punches where "punched env st k p a rid l out punches"
      "r = Some (punch_answer k a rid l (est_socket st) out)"
      "trusted_remotes st' = bt_insert k (punch_entry env k rid p out) (trusted_remotes st)"
      "session_id st' = pe_random env" "last_request_tm st' = None"
      "sent = reqs @ map (Pair (est_socket st)) punches"
      "p2p_server_addr st' = p2p_server_addr st" "est_key st' = est_key st"
  using assms
proof (cases rule: receive_phase_cases)
  case unmoved
  then show ?thesis by (intro quiet) auto
next
  case (lost msg k a)
  then show ?thesis by (intro quiet) auto
next
  case (initiate msg k a rid l)
  from initiate(3) show ?thesis
  proof (cases rule: handle_initiate_cases)
    case (failed p tr fresh e punches)
    with initiate show ?thesis
      by (intro tried [of k p a rid l "Err e" punches]) (auto simp: punched_def punch_answer_def punch_entry_def)
  next
    case (connected p tr fresh dst punches)
    with initiate show ?thesis
      by (intro tried [of k p a rid l "Ok dst" punches]) (auto simp: punched_def punch_answer_def punch_entry_def)
  qed (auto intro!: quiet)
qed

text \<open>The same for a call that entered its receive phase in a state like the one it began with.\<close>

lemma receive_phase_effect_from:
  assumes "receive_phase windows env reqs st1 = Answered r st' sent" and same: "same_client st st1"
  obtains (quiet) "trusted_remotes st' = trusted_remotes st" "idle_answer r" "sent = reqs"
      "p2p_server_addr st' = p2p_server_addr st" "est_key st' = est_key st"
  | (tried) k p a rid l out punches where "punched env st k p a rid l out punches"
      "r = Some (punch_answer k a rid l (est_socket st1) out)"
      "trusted_remotes st' = bt_insert k (punch_entry env k rid p out) (trusted_remotes st)"
      "session_id st' = pe_random env" "last_request_tm st' = None"
      "sent = reqs @ map (Pair (est_socket st1)) punches"
      "p2p_server_addr st' = p2p_server_addr st" "est_key st' = est_key st"
  using assms(1)
proof (cases rule: receive_phase_effect)
  case quiet': quiet
  with same show ?thesis by (intro quiet) (auto simp: same_client_def)
next
  case tried': (tried k p a rid l out punches)
  have "punched env st k p a rid l out punches" using tried'(1) punched_cong [OF same] by blast
  from tried [OF this tried'(2) _ tried'(4-6)] tried'(3,7,8) same show ?thesis by (simp add: same_client_def)
qed

lemma placed_request_sent:
  assumes "table_ok st" and "request_due (pe_now env) st" and "refresh_socket windows env st = Ok st1"
    and "ks = fst (new_available_remotes_list (pe_list_now env) st1)" and "ks \<noteq> []"
    and "signed_to_bytes ch ed (pe_utc env) (est_key st) (ConnectionRequest ks (session_id st)) = Ok datagram"
  shows "request_sent ch ed env st [(sock, datagram, SockV4 (p2p_server_addr st))]"
proof -
  have same: "trusted_remotes st1 = trusted_remotes st"
    using refresh_socket_keeps(1) [OF assms(3)] by (simp add: same_client_def)
  with assms(1) have ok1: "table_ok st1" by (simp add: table_ok_def)
  have "new_available_remotes_list (pe_list_now env) st1 = (ks, snd (new_available_remotes_list (pe_list_now env) st1))"
    by (simp add: assms(4))
  from available_list_shape [OF ok1 this, unfolded same]
  have "length ks \<le> 10 \<and> distinct ks \<and> (\<forall>k \<in> set ks. enabled_at (pe_list_now env) (trusted_remotes st) k)" by blast
  moreover have "0 < length ks" using assms(5) by blast
  ultimately show ?thesis using assms(2,6) unfolding request_sent_def by blast
qed

lemma poll_accept_effect:
  assumes "poll_accept ch ed windows env st = Answered r st' sent" and ok: "table_ok st"
  obtains (quiet) "trusted_remotes st' = trusted_remotes st" "idle_answer r"
      "request_sent ch ed env st sent" "p2p_server_addr st' = p2p_server_addr st" "est_key st' = est_key st"
  | (tried) k p a rid l out punches reqs sock where "punched env st k p a rid l out punches"
      "r = Some (punch_answer k a rid l sock out)"
      "trusted_remotes st' = bt_insert k (punch_entry env k rid p out) (trusted_remotes st)"
      "session_id st' = pe_random env" "last_request_tm st' = None"
      "request_sent ch ed env st reqs" "sent = reqs @ map (Pair sock) punches"
      "p2p_server_addr st' = p2p_server_addr st" "est_key st' = est_key st"
  using assms
proof (cases rule: poll_accept_cases)
  case nobody
  then show ?thesis by (intro quiet) (auto simp: same_client_def request_sent_def)
next
  case (not_due st1)
  have none: "request_sent ch ed env st []" by (simp add: request_sent_def)
  from not_due(5,3) show ?thesis
    by (cases rule: receive_phase_effect_from) (use none in \<open>auto intro: quiet tried\<close>)
next
  case (placed st1 st2 ks datagram)
  note reqs = placed_request_sent [OF ok placed(1,2,5,6,7)]
  from placed(9,3) show ?thesis
  proof (cases rule: receive_phase_effect_from)
    case quiet': quiet
    with reqs show ?thesis by (intro quiet) simp_all
  next
    case tried': (tried k p a rid l out punches)
    show ?thesis by (rule tried [OF tried'(1-5) reqs _ tried'(7,8)]) (simp add: tried'(6))
  qed
qed

lemma table_ok_punched:
  assumes "table_ok st" and "punched env st k p a rid l out punches"
    and "trusted_remotes st' = bt_insert k (punch_entry env k rid p out) (trusted_remotes st)"
  shows "table_ok (st' :: 'sk establisher)"
proof -
  have "peer_ok p" using assms(1,2) table_okD(2) by (auto simp: punched_def)
  then have "peer_ok (punch_entry env k rid p out)"
    by (cases out) (simp_all add: punch_entry_def notified_def)
  with assms(1,3) show ?thesis by (auto simp: table_ok_def)
qed

lemma punched_not_Panic: "punched env st k p a rid l out punches \<Longrightarrow> out \<noteq> Panic"
  by (auto simp: punched_def)

lemma table_ok_poll:
  assumes "poll_accept ch ed windows env st = Answered r st' sent" and "table_ok st"
  shows "table_ok st'"
  using assms
proof (cases rule: poll_accept_effect)
  case quiet
  with assms(2) show ?thesis by (simp add: table_ok_def)
next
  case (tried k p a rid l out punches reqs sock)
  show ?thesis by (rule table_ok_punched [OF assms(2) tried(1,3)])
qed

text \<open>Where a connection comes from.\<close>

lemma poll_connection_source:
  assumes "poll_accept ch ed windows env st = Answered (Some (Ok c)) st' sent" and "table_ok st"
  obtains msg a rid punches where "pe_recv env = RecvFrom msg (SockV4 (p2p_server_addr st))"
    and "from_server_try_parse msg = Ok (InitiateConnectionRequest (nc_pubkey c) a rid (nc_is_listener c))"
    and "hole_punch (SockV4 a) (pe_punch env) = Some (Ok (nc_remote_addr c), punches)"
  using assms
proof (cases rule: poll_accept_effect)
  case (tried k p a rid l out punches reqs sock)
  then show ?thesis using that by (cases out) (auto simp: punched_def punch_answer_def)
qed simp

subsection \<open>An example\<close>

text \<open>The client with key 1 trusts key 2; the server announces key 2, and the hole punch succeeds.\<close>

definition ex_server :: sockaddr_v4 where "ex_server = sock4 (Ipv4 99 0 0 1) 9000"

definition ex_client :: "pubkey establisher" where
  "ex_client = \<lparr>trusted_remotes = [(key_fill 2, peer_state_default)], last_trusted_peer_offset = pubkey_default,
     p2p_server_addr = ex_server, last_request_tm = None, est_key = key_fill 1, session_id = 9,
     est_socket = \<lparr>so_handle = 1, so_bound = UNSPECIFIED, so_device = None, so_peer = None\<rparr>,
     p2p_interface_tracker = tracker_new, cur_interface = None\<rparr>"

definition ex_initiate :: from_server where
  "ex_initiate = InitiateConnectionRequest (key_fill 2) (sock4 (Ipv4 10 0 0 9) 700) 7 True"

definition ex_env :: "i64 poll_env" where
  "ex_env = \<lparr>pe_interfaces = [], pe_bind = \<lparr>os_first = Some 2, os_fallback = None, os_device_ok = True\<rparr>,
     pe_now = 0, pe_list_now = 0, pe_utc = 5, pe_sent_at = 0,
     pe_recv = RecvFrom (from_server_to_bytes ex_initiate) (SockV4 ex_server), pe_msg_now = 1,
     pe_interfaces' = [], pe_bind' = \<lparr>os_first = None, os_fallback = Some 3, os_device_ok = True\<rparr>,
     pe_random = 77, pe_punch = ex_trace, pe_failed_at = 4\<rparr>"

definition ex_connection :: new_connection where
  "ex_connection = \<lparr>nc_pubkey = key_fill 2, nc_remote_addr = ex_peer 8,
     nc_socket = \<lparr>so_handle = 1, so_bound = UNSPECIFIED, so_device = None, so_peer = None\<rparr>, nc_is_listener = True\<rparr>"

definition ex_connected :: "pubkey establisher" where
  "ex_connected = ex_client\<lparr>
     trusted_remotes := [(key_fill 2, punch_succeeded (notified (key_fill 2) 7 peer_state_default))],
     last_trusted_peer_offset := key_fill 2, last_request_tm := None, session_id := 77,
     est_socket := \<lparr>so_handle = 3, so_bound = UNSPECIFIED, so_device = None, so_peer = None\<rparr>\<rparr>"

definition ex_sent :: "packet list" where
  "ex_sent = [(est_socket ex_client, ex_datagram, SockV4 ex_server),
     (est_socket ex_client, punch_msg, ex_peer 9), (est_socket ex_client, punch_ack_msg, ex_peer 8)]"

lemma ex_client_ok [simp]: "table_ok ex_client"
  by (auto simp: table_ok_def ex_client_def bt_ok_def bt_get_def split: if_splits)

lemma ex_signed: "signed_to_bytes chrono_ms ed25519_plain 5 (key_fill 1) (ConnectionRequest [key_fill 2] 9) = Ok ex_datagram"
  by (simp add: signed_to_bytes_def payload_to_bytes_def le_bytes_unfold ex_datagram_def ex_payload_def
      ex_signature_def signed_part_def chrono_ms_def ed25519_plain_def)

lemma ex_parse: "from_server_try_parse (from_server_to_bytes m) = Ok m"
  using from_server_try_parse_to_bytes [of m "[]"] by simp

lemma ex_no_interface [simp]: "current_interface [] tr = (None, tr)"
  by (simp add: current_interface_def best_of_def)

lemma ex_list:
  "new_available_remotes_list 0 ex_client = ([key_fill 2], ex_client\<lparr>last_trusted_peer_offset := key_fill 2\<rparr>)"
  by (simp add: new_available_remotes_list_def ex_client_def bt_range_from_def bt_range_to_def bt_range_above_def
      bt_keys_def is_discovery_enabled_def backoff_defs pubkey_default_def word_le_nat_alt)

lemma ex_punch: "hole_punch (SockV4 (sock4 (Ipv4 10 0 0 9) 700)) ex_trace =
    Some (Ok (ex_peer 8), [(punch_msg, ex_peer 9), (punch_ack_msg, ex_peer 8)])"
  using ex_trace_run by (simp add: ex_peer_def)

lemma ex_poll_request:
  assumes "pe_interfaces env = []" "pe_now env = 0" "pe_list_now env = 0" "pe_utc env = 5" "pe_sent_at env = 0"
  shows "poll_accept chrono_ms ed25519_plain False env ex_client =
    receive_phase False env [(est_socket ex_client, ex_datagram, SockV4 ex_server)]
      (ex_client\<lparr>last_trusted_peer_offset := key_fill 2, last_request_tm := Some 0\<rparr>)"
proof -
  have refresh: "refresh_socket False env ex_client = Ok ex_client"
    by (simp add: refresh_socket_def assms ex_client_def)
  have due: "request_due 0 ex_client" by (simp add: request_due_def ex_client_def)
  have place: "place_connection_requests chrono_ms ed25519_plain env [key_fill 2]
      (ex_client\<lparr>last_trusted_peer_offset := key_fill 2\<rparr>) =
    Ok (ex_client\<lparr>last_trusted_peer_offset := key_fill 2, last_request_tm := Some 0\<rparr>,
        [(est_socket ex_client, ex_datagram, SockV4 ex_server)])"
    using ex_signed by (simp add: place_connection_requests_def ex_client_def assms)
  show ?thesis by (simp add: poll_accept_def refresh due ex_list place assms)
qed

lemma ex_poll: "poll_accept chrono_ms ed25519_plain False ex_env ex_client =
    Answered (Some (Ok ex_connection)) ex_connected ex_sent"
proof -
  have "receive_phase False ex_env [(est_socket ex_client, ex_datagram, SockV4 ex_server)]
      (ex_client\<lparr>last_trusted_peer_offset := key_fill 2, last_request_tm := Some 0\<rparr>) =
    Answered (Some (Ok ex_connection)) ex_connected ex_sent"
    using ex_punch ex_parse [of ex_initiate]
    by (simp add: receive_phase_def ex_env_def ex_initiate_def ex_client_def handle_initiate_def Let_def
        new_udp_socket_def ex_connection_def ex_connected_def ex_sent_def notified_def bt_get_def
        is_discovery_enabled_def backoff_defs del: from_server_to_bytes.simps)
  then show ?thesis by (simp add: ex_poll_request ex_env_def)
qed

definition ex_notified :: "from_server \<Rightarrow> i64 poll_env" where
  "ex_notified m = ex_env\<lparr>pe_recv := RecvFrom (from_server_to_bytes m) (SockV4 ex_server)\<rparr>"

lemma ex_any_punch: "\<exists>sent. hole_punch addr ex_trace = Some (Ok (ex_peer 8), sent)"
  by (simp add: hole_punch_def ex_trace_def punch_start_def Let_def time_simps)

lemma ex_waiting_poll:
  assumes "trusted_remotes st = [(k, peer_state_default)]" "last_request_tm st = Some 0" "p2p_server_addr st = ex_server"
    "cur_interface st = None"
  shows "\<exists>st' sent. poll_accept chrono_ms ed25519_plain False (ex_notified (InitiateConnectionRequest k a rid l)) st =
    Answered (Some (Ok \<lparr>nc_pubkey = k, nc_remote_addr = ex_peer 8, nc_socket = est_socket st, nc_is_listener = l\<rparr>)) st' sent"
proof -
  let ?m = "InitiateConnectionRequest k a rid l"
  obtain sent where punch: "hole_punch (SockV4 a) ex_trace = Some (Ok (ex_peer 8), sent)" using ex_any_punch by blast
  have refresh: "refresh_socket False (ex_notified ?m) st = Ok st"
    by (simp add: refresh_socket_def ex_notified_def ex_env_def assms)
  have due: "\<not> request_due (pe_now (ex_notified ?m)) st"
    by (simp add: request_due_def assms ex_notified_def ex_env_def time_simps REQUEST_PLACEMENT_INTERVAL_def)
  have "\<exists>st' sent. receive_phase False (ex_notified ?m) [] st =
    Answered (Some (Ok \<lparr>nc_pubkey = k, nc_remote_addr = ex_peer 8, nc_socket = est_socket st, nc_is_listener = l\<rparr>)) st' sent"
    using punch ex_parse [of ?m]
    by (simp add: receive_phase_def ex_notified_def ex_env_def assms handle_initiate_def
        Let_def new_udp_socket_def bt_get_def is_discovery_enabled_def peer_state_default_def
        del: from_server_to_bytes.simps)
  then show ?thesis by (simp add: poll_accept_def refresh due)
qed

subsection \<open>Calls in sequence\<close>

text \<open>What a user of the establisher can do, and the connections a sequence of operations returns.\<close>

datatype 'dt client_op =
    Poll "'dt poll_env"
  | AddTrusted pubkey
  | RemoveTrusted pubkey
  | SetTrusted "pubkey list"
  | Closed pubkey

fun client_step ::
  "'dt chrono \<Rightarrow> 'sk ed25519 \<Rightarrow> bool \<Rightarrow> 'dt client_op \<Rightarrow> 'sk establisher \<Rightarrow>
   ('sk establisher \<times> new_connection list) option" where
  "client_step ch ed windows (Poll env) st =
     (case poll_accept ch ed windows env st of
        Answered (Some (Ok c)) st' _ \<Rightarrow> Some (st', [c])
      | Answered _ st' _ \<Rightarrow> Some (st', [])
      | _ \<Rightarrow> None)"
| "client_step ch ed windows (AddTrusted k) st = Some (add_trusted_remote k st, [])"
| "client_step ch ed windows (RemoveTrusted k) st = Some (remove_trusted_remote k st, [])"
| "client_step ch ed windows (SetTrusted ks) st = Some (set_trusted_remote_list ks st, [])"
| "client_step ch ed windows (Closed k) st = Some (on_connection_closed k st, [])"

fun run_client ::
  "'dt chrono \<Rightarrow> 'sk ed25519 \<Rightarrow> bool \<Rightarrow> 'dt client_op list \<Rightarrow> 'sk establisher \<Rightarrow>
   ('sk establisher \<times> new_connection list) option" where
  "run_client ch ed windows [] st = Some (st, [])"
| "run_client ch ed windows (op # ops) st =
     (case client_step ch ed windows op st of
        None \<Rightarrow> None
      | Some (st', cs) \<Rightarrow>
          (case run_client ch ed windows ops st' of
             None \<Rightarrow> None
           | Some (st'', cs') \<Rightarrow> Some (st'', cs @ cs')))"

text \<open>The operations after which peer \<open>k\<close> may be connected again.\<close>

fun releases :: "pubkey \<Rightarrow> 'dt client_op \<Rightarrow> bool" where
  "releases k (Poll _) = False"
| "releases k (AddTrusted _) = False"
| "releases k (RemoveTrusted j) = (j = k)"
| "releases k (SetTrusted ks) = (k \<notin> set ks)"
| "releases k (Closed j) = (j = k)"

definition active :: "pubkey \<Rightarrow> 'sk establisher \<Rightarrow> bool" where
  "active k st \<longleftrightarrow> (\<exists>p. bt_get (trusted_remotes st) k = Some p \<and> state_kind p = ConnectionActive)"

lemma table_ok_client_step:
  assumes "client_step ch ed windows op st = Some (st', cs)" and "table_ok st"
  shows "table_ok st'"
proof (cases op)
  case (Poll env)
  with assms(1) obtain r sent where "poll_accept ch ed windows env st = Answered r st' sent"
    by (auto split: poll_outcome.splits option.splits res.splits)
  then show ?thesis using assms(2) by (rule table_ok_poll)
qed (use assms in \<open>auto intro: table_ok_add table_ok_remove table_ok_set_trusted_remote_list
      table_ok_on_connection_closed\<close>)

lemma client_step_Poll:
  assumes "client_step ch ed windows (Poll env) st = Some (st', cs)"
  obtains r sent where "poll_accept ch ed windows env st = Answered r st' sent"
    "cs = (case r of Some (Ok c) \<Rightarrow> [c] | _ \<Rightarrow> [])"
  using assms by (auto split: poll_outcome.splits option.splits res.splits)

lemma poll_connection_active:
  assumes "poll_accept ch ed windows env st = Answered (Some (Ok c)) st' sent" and "table_ok st"
  shows "active (nc_pubkey c) st'"
  using assms
proof (cases rule: poll_accept_effect)
  case (tried k p a rid l out punches reqs sock)
  then show ?thesis
    using table_okD(1) [OF assms(2)]
    by (cases out) (auto simp: active_def punch_answer_def punch_entry_def punch_succeeded_def)
qed auto

lemma active_step:
  assumes "client_step ch ed windows op st = Some (st', cs)" and "table_ok st"
    and "active k st" and "\<not> releases k op"
  shows "active k st' \<and> k \<notin> nc_pubkey ` set cs"
proof (cases op)
  case (Poll env)
  with assms(1) obtain r sent where poll: "poll_accept ch ed windows env st = Answered r st' sent"
    and cs: "cs = (case r of Some (Ok c) \<Rightarrow> [c] | _ \<Rightarrow> [])"
    by (auto elim: client_step_Poll simp del: client_step.simps)
  from poll assms(2) show ?thesis
  proof (cases rule: poll_accept_effect)
    case quiet
    with cs assms(3) show ?thesis by (auto simp: active_def split: option.splits res.splits)
  next
    case (tried j p a rid l out punches reqs sock)
    have "j \<noteq> k"
      using tried(1) assms(3) by (auto simp: active_def punched_def is_discovery_enabled_def)
    with tried(2,3) cs assms(3) table_okD(1) [OF assms(2)] show ?thesis
      by (cases out) (auto simp: active_def punch_answer_def)
  qed
next
  case (AddTrusted j)
  with assms show ?thesis
    using table_okD(1) [OF assms(2)] by (auto simp: active_def add_trusted_remote_def get_or_default)
next
  case (RemoveTrusted j)
  with assms show ?thesis
    using table_okD(1) [OF assms(2)] by (auto simp: active_def remove_trusted_remote_def)
next
  case (SetTrusted ks)
  with assms show ?thesis
    using table_okD(1) [OF assms(2)] by (auto simp: active_def get_set_trusted_remote_list)
next
  case (Closed j)
  with assms show ?thesis
    using table_okD(1) [OF assms(2)] by (auto simp: active_def get_on_connection_closed)
qed

lemma active_run:
  assumes "run_client ch ed windows ops st = Some (st', cs)" and "table_ok st"
    and "active k st" and "\<forall>op \<in> set ops. \<not> releases k op"
  shows "active k st' \<and> k \<notin> nc_pubkey ` set cs"
  using assms
proof (induction ops arbitrary: st cs)
  case (Cons op ops)
  from Cons.prems(1) obtain st1 cs1 cs2 where s: "client_step ch ed windows op st = Some (st1, cs1)"
    and r: "run_client ch ed windows ops st1 = Some (st', cs2)" and "cs = cs1 @ cs2"
    by (auto split: option.splits)
  moreover have "active k st1 \<and> k \<notin> nc_pubkey ` set cs1"
    using active_step [OF s] Cons.prems by simp
  moreover have "table_ok st1" using s Cons.prems(2) by (rule table_ok_client_step)
  ultimately show ?case using Cons.IH [OF r] Cons.prems(4) by auto
qed simp

subsection \<open>What a run trusts\<close>

text \<open>The operations that put a key on the list.\<close>

fun trusts :: "pubkey \<Rightarrow> 'dt client_op \<Rightarrow> bool" where
  "trusts k (Poll _) = False"
| "trusts k (AddTrusted j) = (j = k)"
| "trusts k (RemoveTrusted _) = False"
| "trusts k (SetTrusted ks) = (k \<in> set ks)"
| "trusts k (Closed j) = (j = k)"

abbreviation listed :: "'sk establisher \<Rightarrow> pubkey \<Rightarrow> bool" where
  "listed st k \<equiv> bt_get (trusted_remotes st) k \<noteq> None"

lemma client_step_edit:
  assumes "client_step ch ed windows op st = Some (st', cs)" and "\<And>env. op \<noteq> Poll env"
  shows "p2p_server_addr st' = p2p_server_addr st" "est_key st' = est_key st" "cs = []"
  using assms
  by (cases op; auto simp: add_trusted_remote_def remove_trusted_remote_def set_trusted_remote_list_def
      on_connection_closed_def Let_def split: option.splits)+

lemma trusts_step:
  assumes "client_step ch ed windows op st = Some (st', cs)" and ok: "table_ok st"
  shows "(listed st' k \<longrightarrow> listed st k \<or> trusts k op) \<and> (\<forall>c \<in> set cs. listed st (nc_pubkey c))
    \<and> p2p_server_addr st' = p2p_server_addr st \<and> est_key st' = est_key st"
proof (cases op)
  case (Poll env)
  with assms(1) obtain r sent where poll: "poll_accept ch ed windows env st = Answered r st' sent"
    and cs: "cs = (case r of Some (Ok c) \<Rightarrow> [c] | _ \<Rightarrow> [])"
    by (auto elim: client_step_Poll simp del: client_step.simps)
  from poll ok show ?thesis
  proof (cases rule: poll_accept_effect)
    case quiet
    with cs show ?thesis by (auto split: option.splits res.splits)
  next
    case (tried j p a rid l out punches reqs sock)
    then have "listed st j" by (simp add: punched_def)
    with tried cs table_okD(1) [OF ok] show ?thesis by (cases out) (auto simp: punch_answer_def)
  qed
next
  case (AddTrusted j)
  with client_step_edit [OF assms(1)] assms(1) table_okD(1) [OF ok] show ?thesis
    by (auto simp: add_trusted_remote_def get_or_default split: if_splits)
next
  case (RemoveTrusted j)
  with client_step_edit [OF assms(1)] assms(1) table_okD(1) [OF ok] show ?thesis
    by (auto simp: remove_trusted_remote_def split: if_splits)
next
  case (SetTrusted ks)
  with client_step_edit [OF assms(1)] assms(1) table_okD(1) [OF ok] show ?thesis
    by (auto simp: get_set_trusted_remote_list split: if_splits)
next
  case (Closed j)
  with client_step_edit [OF assms(1)] assms(1) table_okD(1) [OF ok] show ?thesis
    by (auto simp: get_on_connection_closed split: if_splits)
qed

lemma trusts_run:
  assumes "run_client ch ed windows ops st = Some (st', cs)" and "table_ok st"
  shows "table_ok st' \<and> (\<forall>k. listed st' k \<longrightarrow> listed st k \<or> (\<exists>op \<in> set ops. trusts k op))
    \<and> (\<forall>c \<in> set cs. listed st (nc_pubkey c) \<or> (\<exists>op \<in> set ops. trusts (nc_pubkey c) op))
    \<and> p2p_server_addr st' = p2p_server_addr st \<and> est_key st' = est_key st"
  using assms
proof (induction ops arbitrary: st cs)
  case (Cons op ops)
  from Cons.prems(1) obtain st1 cs1 cs2 where s: "client_step ch ed windows op st = Some (st1, cs1)"
    and r: "run_client ch ed windows ops st1 = Some (st', cs2)" and cs: "cs = cs1 @ cs2"
    by (auto split: option.splits)
  note one = trusts_step [OF s Cons.prems(2)]
  have "table_ok st1" using s Cons.prems(2) by (rule table_ok_client_step)
  note rest = Cons.IH [OF r this]
  have "set cs = set cs1 \<union> set cs2" "set (op # ops) = insert op (set ops)" by (simp_all add: cs)
  with one rest show ?case by (metis Un_iff insert_iff)
qed simp

subsection \<open>A call that connects\<close>

text \<open>A client that would act on a notification with peer \<open>k\<close> and session \<open>rid\<close>: the peer is enabled, the
  session is new, and if a request is due there is somebody to ask for.\<close>

definition willing :: "'dt poll_env \<Rightarrow> 'sk establisher \<Rightarrow> pubkey \<Rightarrow> u32 \<Rightarrow> bool" where
  "willing env st k rid \<longleftrightarrow> table_ok st \<and> os_ok (pe_bind env) \<and> os_ok (pe_bind' env)
     \<and> (\<exists>p. bt_get (trusted_remotes st) k = Some p \<and> is_discovery_enabled (pe_msg_now env) p
          \<and> last_accepted_session_id p \<noteq> Some rid)
     \<and> (request_due (pe_now env) st \<longrightarrow> (\<exists>j. enabled_at (pe_list_now env) (trusted_remotes st) j))"

lemma receive_connects:
  assumes "willing env st k rid" and "trusted_remotes st2 = trusted_remotes st" and "p2p_server_addr st2 = p2p_server_addr st"
    and "pe_recv env = RecvFrom msg (SockV4 (p2p_server_addr st))"
    and "from_server_try_parse msg = Ok (InitiateConnectionRequest k a rid l)"
    and "hole_punch (SockV4 a) (pe_punch env) = Some (Ok dst, punches)"
  shows "\<exists>st' sent'. receive_phase windows env sent st2 =
    Answered (Some (Ok \<lparr>nc_pubkey = k, nc_remote_addr = dst, nc_socket = est_socket st2, nc_is_listener = l\<rparr>)) st' sent'"
proof -
  obtain best tr where c: "current_interface (pe_interfaces' env) (p2p_interface_tracker st2) = (best, tr)" by fastforce
  have "os_ok (pe_bind' env)" using assms(1) by (simp add: willing_def)
  then obtain fresh where f: "new_udp_socket windows (pe_bind' env) best = Ok fresh"
    using new_udp_socket_returns [of "pe_bind' env" best] c by (metis fst_conv)
  from assms(1) obtain p where "bt_get (trusted_remotes st2) k = Some p" "is_discovery_enabled (pe_msg_now env) p"
    "last_accepted_session_id p \<noteq> Some rid" unfolding willing_def assms(2) by blast
  with assms(3-6) c f show ?thesis by (simp add: receive_phase_def handle_initiate_def Let_def)
qed

lemma poll_connects_willing:
  assumes "willing env st k rid" and "pe_recv env = RecvFrom msg (SockV4 (p2p_server_addr st))"
    and "from_server_try_parse msg = Ok (InitiateConnectionRequest k a rid l)"
    and "hole_punch (SockV4 a) (pe_punch env) = Some (Ok dst, punches)"
  shows "\<exists>sock st' sent. poll_accept ch ed windows env st =
    Answered (Some (Ok \<lparr>nc_pubkey = k, nc_remote_addr = dst, nc_socket = sock, nc_is_listener = l\<rparr>)) st' sent"
proof -
  from assms(1) have ok: "table_ok st" and os: "os_ok (pe_bind env)"
    and due: "request_due (pe_now env) st \<Longrightarrow> \<exists>j. enabled_at (pe_list_now env) (trusted_remotes st) j"
    by (auto simp: willing_def)
  note receive = receive_connects [OF assms(1) _ _ assms(2-4)]
  obtain st1 where st1: "refresh_socket windows env st = Ok st1" using refresh_socket_returns [OF os] by blast
  note keep = refresh_socket_keeps [OF st1, unfolded same_client_def]
  have due1: "request_due (pe_now env) st1 \<longleftrightarrow> request_due (pe_now env) st" using keep(2) by (simp add: request_due_def)
  show ?thesis
  proof (cases "request_due (pe_now env) st")
    case False
    then have "poll_accept ch ed windows env st = receive_phase windows env [] st1" by (simp add: poll_accept_def st1 due1)
    with receive [of st1 windows "[]"] keep(1) show ?thesis by metis
  next
    case True
    obtain ks st2 where l: "new_available_remotes_list (pe_list_now env) st1 = (ks, st2)" by fastforce
    note same = available_keeps [OF l] and more = same_more [OF available_keeps(2) [OF l]]
    have "table_ok st1" using ok keep(1) by (simp add: table_ok_def)
    note shape = available_list_shape [OF this l]
    obtain j where "enabled_at (pe_list_now env) (trusted_remotes st1) j" using due [OF True] keep(1) by auto
    with shape have ks: "ks \<noteq> []" "length ks \<le> 10" by blast+
    then obtain d where d: "place_connection_requests ch ed env ks st2 =
        Ok (st2\<lparr>last_request_tm := Some (pe_sent_at env)\<rparr>, [(est_socket st2, d, SockV4 (p2p_server_addr st2))])"
      by (cases ks) (simp_all add: place_connection_requests_def signed_to_bytes_def payload_to_bytes_def)
    then have "poll_accept ch ed windows env st = receive_phase windows env
        [(est_socket st2, d, SockV4 (p2p_server_addr st2))] (st2\<lparr>last_request_tm := Some (pe_sent_at env)\<rparr>)"
      using True ks(1) by (simp add: poll_accept_def st1 due1 l)
    with receive [of "st2\<lparr>last_request_tm := Some (pe_sent_at env)\<rparr>" windows "[(est_socket st2, d, SockV4 (p2p_server_addr st2))]"] same(1) more(1) keep(1)
    show ?thesis by auto
  qed
qed

subsection \<open>Properties of the client\<close>

text \<open>C20: The state of a client is always of its type. After every run that starts with \<open>new\<close>, the table is sorted by
  key without duplicates, every retry timeout lies between 100 ms and 5 s (so that doubling it
  never overflows), the server's address and the signing key are those given to \<open>new\<close>, and every
  peer on the list and every peer a connection was returned for was put there by an operation of
  the run.\<close>

theorem client_state_well_formed:
  assumes "establisher_new checks system_time outcome windows os ifs ifs' sid key server_addr = Ok st"
    and "run_client ch ed windows ops st = Some (st', cs)"
  shows "sorted_wrt (<) (map fst (trusted_remotes st'))
    \<and> (\<forall>(k, p) \<in> set (trusted_remotes st'). from_millis 100 \<le> failure_retry_timeout p
        \<and> failure_retry_timeout p \<le> from_millis 5000 \<and> (\<exists>op \<in> set ops. trusts k op))
    \<and> (\<forall>c \<in> set cs. \<exists>op \<in> set ops. trusts (nc_pubkey c) op)
    \<and> p2p_server_addr st' = server_addr \<and> est_key st' = key"
proof -
  have new: "trusted_remotes st = []" "p2p_server_addr st = server_addr" "est_key st = key"
    using assms(1) by (auto simp: establisher_new_def bind_res_eq_Ok Let_def case_prod_beta)
  then have "table_ok st" by (simp add: table_ok_def bt_ok_def bt_get_def)
  note run = trusts_run [OF assms(2) this]
  then have ok: "table_ok st'" by blast
  have none: "\<not> listed st k" for k by (simp add: new bt_get_def)
  have sorted: "sorted_wrt (<) (map fst (trusted_remotes st'))" using table_okD(1) [OF ok] by (simp add: bt_ok_def)
  then have "bt_get (trusted_remotes st') k = Some p" if "(k, p) \<in> set (trusted_remotes st')" for k p
    using that by (simp add: bt_get_def strict_sorted_iff)
  with table_okD(2) [OF ok] run none have
    "\<forall>(k, p) \<in> set (trusted_remotes st'). peer_ok p \<and> (\<exists>op \<in> set ops. trusts k op)" by fastforce
  with run none sorted new show ?thesis by (simp add: peer_ok_def case_prod_beta)
qed

theorem client_state_well_formed_witness:
  "\<exists>st st' cs. establisher_new True 0 HttpTimedOut False \<lparr>os_first = Some 2, os_fallback = None, os_device_ok = True\<rparr>
        [] [] 9 (key_fill 1) ex_server = Ok st
    \<and> run_client chrono_ms ed25519_plain False [AddTrusted (key_fill 2), Closed (key_fill 3)] st = Some (st', cs)
    \<and> sorted_wrt (<) (map fst (trusted_remotes st')) \<and> est_key st' = key_fill 1"
proof -
  obtain st where n: "establisher_new True 0 HttpTimedOut False \<lparr>os_first = Some 2, os_fallback = None, os_device_ok = True\<rparr>
        [] [] 9 (key_fill 1) ex_server = Ok st"
    by (simp add: establisher_new_def check_system_time_error_def new_udp_socket_def)
  obtain st' cs where r: "run_client chrono_ms ed25519_plain False [AddTrusted (key_fill 2), Closed (key_fill 3)] st = Some (st', cs)"
    by simp
  from client_state_well_formed [OF n r] n r show ?thesis by blast
qed


lemma refresh_socket_outcome:
  "(\<exists>st1. refresh_socket windows env st = Ok st1) \<or> refresh_socket windows env st = Panic \<and> \<not> os_ok (pe_bind env)"
proof (cases "refresh_socket windows env st")
  case Panic
  then show ?thesis using refresh_socket_returns [of env windows st] by auto
qed simp_all

lemma handle_initiate_outcome:
  assumes "reaches_deadlines (pe_punch env)"
  shows "(\<exists>r st' sent'. handle_initiate windows env sent k a rid l st = Answered r st' sent')
    \<or> handle_initiate windows env sent k a rid l st = Panicked \<and> \<not> os_ok (pe_bind' env)"
proof -
  obtain best tr where c: "current_interface (pe_interfaces' env) (p2p_interface_tracker st) = (best, tr)" by fastforce
  obtain out punches where h: "hole_punch (SockV4 a) (pe_punch env) = Some (out, punches)"
    using hole_punch_ends [OF assms] by fast
  then have "out \<noteq> Panic" by auto
  moreover have "\<not> os_ok (pe_bind' env)" if "\<nexists>fresh. new_udp_socket windows (pe_bind' env) best = Ok fresh"
    using that new_udp_socket_returns [of "pe_bind' env" best] c by (metis fst_conv)
  ultimately show ?thesis using c h
    by (cases "new_udp_socket windows (pe_bind' env) best"; cases out)
      (auto simp: handle_initiate_def Let_def split: option.split)
qed

lemma receive_phase_outcome:
  assumes "reaches_deadlines (pe_punch env)"
  shows "(\<exists>r st' sent'. receive_phase windows env sent st = Answered r st' sent')
    \<or> receive_phase windows env sent st = Panicked \<and> \<not> os_ok (pe_bind' env)"
proof -
  have initiate: ?thesis if "receive_phase windows env sent st = handle_initiate windows env sent k a rid l st" for k a rid l
    using that handle_initiate_outcome [OF assms, of windows sent k a rid l st] by simp
  show ?thesis
  proof (cases "pe_recv env")
    case (RecvFrom msg src)
    show ?thesis
    proof (cases "src = SockV4 (p2p_server_addr st)")
      case True
      note recv = receive_phase_def [of windows env sent st, unfolded RecvFrom recv_outcome.case True]
      show ?thesis
      proof (cases "from_server_try_parse msg")
        case (Ok m)
        show ?thesis
        proof (cases m)
          case (InitiateConnectionRequest k a rid l)
          show ?thesis by (rule initiate [of k a rid l]) (simp add: recv Ok InitiateConnectionRequest)
        qed (simp add: recv Ok)
      qed (use from_server_try_parse_not_Panic in \<open>simp_all add: recv\<close>)
    qed (simp add: receive_phase_def RecvFrom)
  qed (simp_all add: receive_phase_def)
qed

text \<open>C19: A call ends: once the clock passes the two deadlines of a hole punch, there is a result whatever
  was received, for every clock reading and list of interfaces. It is an answer, with the table of peers well
  formed, or a panic, and a panic means that the operating system refused a socket twice,
  bound as wished and bound to any address.\<close>

theorem poll_returns:
  assumes "table_ok st" and "\<exists>ev \<in> set (pt_events (pe_punch env)). pt_start (pe_punch env) + from_millis 500 \<le> fst ev"
    and "\<exists>dv \<in> set (pt_drain (pe_punch env)).
      pt_drain_start (pe_punch env) + from_millis 200 \<le> fst dv \<or> snd dv = DrainTimeout"
  shows "(\<exists>r st' sent. poll_accept ch ed windows env st = Answered r st' sent \<and> table_ok st')
    \<or> poll_accept ch ed windows env st = Panicked
      \<and> (\<exists>os \<in> {pe_bind env, pe_bind' env}. os_first os = None \<and> os_fallback os = None)"
proof (cases "refresh_socket windows env st")
  case Panic
  with refresh_socket_outcome [of windows env st] show ?thesis by (simp add: poll_accept_def os_ok_def)
next
  case (Ok st1)
  have ok1: "table_ok st1"
    using refresh_socket_keeps(1) [OF Ok] assms(1) by (simp add: table_ok_def same_client_def)
  obtain ks st2 where l: "new_available_remotes_list (pe_list_now env) st1 = (ks, st2)" by fastforce
  have "reaches_deadlines (pe_punch env)" using assms(2,3) by (simp add: reaches_deadlines_def)
  note receive = receive_phase_outcome [OF this, of windows]
  have place: "\<exists>st3 sent. place_connection_requests ch ed env ks st2 = Ok (st3, sent)" if "ks \<noteq> []"
    using available_list_shape [OF ok1 l] that
    by (cases ks) (simp_all add: place_connection_requests_def signed_to_bytes_def payload_to_bytes_def)
  have "(\<exists>r st' sent. poll_accept ch ed windows env st = Answered r st' sent)
    \<or> poll_accept ch ed windows env st = Panicked \<and> \<not> os_ok (pe_bind' env)"
  proof (cases "request_due (pe_now env) st1 \<and> ks \<noteq> []")
    case True
    with place obtain st3 sent where "place_connection_requests ch ed env ks st2 = Ok (st3, sent)" by blast
    with True receive [of sent st3] show ?thesis by (simp add: poll_accept_def Ok l)
  next
    case False
    with receive [of "[]" st1] show ?thesis by (cases "ks = []") (auto simp: poll_accept_def Ok l)
  qed
  then show ?thesis
  proof (elim disjE exE conjE)
    fix r st' sent assume "poll_accept ch ed windows env st = Answered r st' sent"
    with table_ok_poll [OF this assms(1)] show ?thesis by simp
  qed (auto simp: os_ok_def)
qed simp

theorem poll_returns_witness:
  "\<exists>r st' sent. poll_accept chrono_ms ed25519_plain False
     (ex_env\<lparr>pe_punch := ex_trace\<lparr>pt_events := [(from_millis 500, Tick)]\<rparr>\<rparr>) ex_client = Answered r st' sent \<and> table_ok st'"
  using poll_returns [OF ex_client_ok, of "ex_env\<lparr>pe_punch := ex_trace\<lparr>pt_events := [(from_millis 500, Tick)]\<rparr>\<rparr>"
      chrono_ms ed25519_plain False]
  by (simp add: ex_trace_def) (simp add: ex_env_def)

text \<open>C8: A connection is returned only for a trusted peer whose discovery is enabled, on an
  initiation that came from the server's address and carries a session id not acted on before,
  and after a successful hole punch to the announced address. The connection has that peer's
  key, the address found by the punch, and the announced role; the socket of the client is
  replaced, its session id is fresh, and the peer counts as connected.\<close>

theorem poll_connects:
  assumes "poll_accept ch ed windows env st = Answered (Some (Ok c)) st' sent" and "table_ok st"
  shows "\<exists>msg a rid p punches.
      pe_recv env = RecvFrom msg (SockV4 (p2p_server_addr st))
    \<and> from_server_try_parse msg = Ok (InitiateConnectionRequest (nc_pubkey c) a rid (nc_is_listener c))
    \<and> bt_get (trusted_remotes st) (nc_pubkey c) = Some p
    \<and> is_discovery_enabled (pe_msg_now env) p \<and> last_accepted_session_id p \<noteq> Some rid
    \<and> hole_punch (SockV4 a) (pe_punch env) = Some (Ok (nc_remote_addr c), punches)
    \<and> trusted_remotes st' = bt_insert (nc_pubkey c) (punch_succeeded (p\<lparr>last_accepted_session_id := Some rid\<rparr>))
        (trusted_remotes st)
    \<and> session_id st' = pe_random env \<and> last_request_tm st' = None"
  using assms
proof (cases rule: poll_accept_effect)
  case quiet
  then show ?thesis by simp
next
  case (tried k p a rid l out punches reqs sock)
  then obtain dst where "out = Ok dst" by (cases out) (auto simp: punch_answer_def)
  with tried show ?thesis
    by (auto simp: punched_def punch_answer_def punch_entry_def notified_def)
qed

theorem poll_connects_witness:
  "\<exists>msg a rid p punches.
      pe_recv ex_env = RecvFrom msg (SockV4 (p2p_server_addr ex_client))
    \<and> from_server_try_parse msg = Ok (InitiateConnectionRequest (nc_pubkey ex_connection) a rid (nc_is_listener ex_connection))
    \<and> bt_get (trusted_remotes ex_client) (nc_pubkey ex_connection) = Some p
    \<and> is_discovery_enabled (pe_msg_now ex_env) p \<and> last_accepted_session_id p \<noteq> Some rid
    \<and> hole_punch (SockV4 a) (pe_punch ex_env) = Some (Ok (nc_remote_addr ex_connection), punches)
    \<and> trusted_remotes ex_connected = bt_insert (nc_pubkey ex_connection)
        (punch_succeeded (p\<lparr>last_accepted_session_id := Some rid\<rparr>)) (trusted_remotes ex_client)
    \<and> session_id ex_connected = pe_random ex_env \<and> last_request_tm ex_connected = None"
  by (rule poll_connects [OF ex_poll ex_client_ok])

text \<open>C27: When a hole punch fails, the call reports the error of the punch and the announcement. The server
  had announced the peer, which is on the list. Its entry alone changes: the peer is disabled
  until its retry timeout, at most five seconds, has passed; the next timeout is longer by as much
  again, at most by a second and at most five seconds in all; and the session of the announcement is
  noted. The client takes a new session id and places its next request at once. The server's
  address and the signing key stay.\<close>

theorem poll_punch_failure:
  assumes "poll_accept ch ed windows env st = Answered (Some (Err (HandlingInitiate a rid e))) st' sent"
    and "table_ok st"
  shows "\<exists>k l p msg punches. pe_recv env = RecvFrom msg (SockV4 (p2p_server_addr st))
    \<and> from_server_try_parse msg = Ok (InitiateConnectionRequest k a rid l)
    \<and> hole_punch (SockV4 a) (pe_punch env) = Some (Err e, punches)
    \<and> bt_get (trusted_remotes st) k = Some p \<and> failure_retry_timeout p \<le> from_secs 5
    \<and> trusted_remotes st' = bt_insert k
        \<lparr>state_kind = DisabledUntil (pe_failed_at env + failure_retry_timeout p),
         failure_retry_timeout = min (failure_retry_timeout p + min (failure_retry_timeout p) (from_secs 1)) (from_secs 5),
         last_accepted_session_id = Some rid\<rparr> (trusted_remotes st)
    \<and> (\<forall>now. enabled_at now (trusted_remotes st') k \<longleftrightarrow> pe_failed_at env + failure_retry_timeout p < now)
    \<and> (\<forall>j. j \<noteq> k \<longrightarrow> bt_get (trusted_remotes st') j = bt_get (trusted_remotes st) j)
    \<and> session_id st' = pe_random env \<and> last_request_tm st' = None
    \<and> p2p_server_addr st' = p2p_server_addr st \<and> est_key st' = est_key st"
  using assms
proof (cases rule: poll_accept_effect)
  case (tried k p a' rid' l out punches reqs sock)
  then have o: "out = Err e" "a' = a" "rid' = rid" by (auto simp: punch_answer_def split: res.splits)
  let ?p' = "\<lparr>state_kind = DisabledUntil (pe_failed_at env + failure_retry_timeout p),
      failure_retry_timeout = min (failure_retry_timeout p + min (failure_retry_timeout p) (from_secs 1)) (from_secs 5),
      last_accepted_session_id = Some rid\<rparr>"
  from tried(1) obtain msg where msg: "pe_recv env = RecvFrom msg (SockV4 (p2p_server_addr st))"
    "from_server_try_parse msg = Ok (InitiateConnectionRequest k a rid l)"
    and p: "bt_get (trusted_remotes st) k = Some p"
    and h: "hole_punch (SockV4 a) (pe_punch env) = Some (Err e, punches)"
    unfolding punched_def o by blast
  have "punch_entry env k rid p out = ?p'"
    by (simp add: punch_entry_def o punch_failed_def notified_def Let_def time_simps HOLE_PUNCH_FAILED_MAX_TIMEOUT_MS_def)
  with tried(3) o have t: "trusted_remotes st' = bt_insert k ?p' (trusted_remotes st)" by simp
  have "peer_ok p" using table_okD(2) [OF assms(2) p] .
  then have "failure_retry_timeout p \<le> from_secs 5" by (simp add: peer_ok_def time_simps)
  moreover have "enabled_at now (trusted_remotes st') k \<longleftrightarrow> pe_failed_at env + failure_retry_timeout p < now" for now
    using t table_okD(1) [OF assms(2)] by (simp add: enabled_at_def is_discovery_enabled_def)
  moreover have "bt_get (trusted_remotes st') j = bt_get (trusted_remotes st) j" if "j \<noteq> k" for j
    using that t table_okD(1) [OF assms(2)] by simp
  ultimately show ?thesis using p h t msg tried(4,5,8,9) by blast
next
  case quiet
  then show ?thesis by simp
qed

lemma ex_poll_silent: "\<exists>st'. poll_accept chrono_ms ed25519_plain False (ex_env\<lparr>pe_punch := ex_silent\<rparr>) ex_client =
    Answered (Some (Err (HandlingInitiate (sock4 (Ipv4 10 0 0 9) 700) 7
      \<lparr>hpe_got_punch = False, hpe_got_ack = False\<rparr>))) st'
      [(est_socket ex_client, ex_datagram, SockV4 ex_server), (est_socket ex_client, punch_msg, ex_peer 9)]"
proof -
  have "\<exists>st'. receive_phase False (ex_env\<lparr>pe_punch := ex_silent\<rparr>)
      [(est_socket ex_client, ex_datagram, SockV4 ex_server)]
      (ex_client\<lparr>last_trusted_peer_offset := key_fill 2, last_request_tm := Some 0\<rparr>) =
    Answered (Some (Err (HandlingInitiate (sock4 (Ipv4 10 0 0 9) 700) 7
      \<lparr>hpe_got_punch = False, hpe_got_ack = False\<rparr>))) st'
      [(est_socket ex_client, ex_datagram, SockV4 ex_server), (est_socket ex_client, punch_msg, ex_peer 9)]"
    using ex_silent_run ex_parse [of ex_initiate]
    by (simp add: receive_phase_def ex_env_def ex_initiate_def ex_client_def handle_initiate_def
        Let_def new_udp_socket_def bt_get_def ex_peer_def is_discovery_enabled_def peer_state_default_def
        del: from_server_to_bytes.simps)
  then show ?thesis by (simp add: ex_poll_request ex_env_def)
qed

theorem poll_punch_failure_witness:
  "\<exists>st' p. bt_get (trusted_remotes ex_client) (key_fill 2) = Some p
    \<and> (\<forall>now. enabled_at now (trusted_remotes (st' :: pubkey establisher)) (key_fill 2) \<longleftrightarrow> 4 + failure_retry_timeout p < now)
    \<and> session_id st' = 77 \<and> last_request_tm st' = None"
proof -
  obtain st' where poll: "poll_accept chrono_ms ed25519_plain False (ex_env\<lparr>pe_punch := ex_silent\<rparr>) ex_client =
    Answered (Some (Err (HandlingInitiate (sock4 (Ipv4 10 0 0 9) 700) 7
      \<lparr>hpe_got_punch = False, hpe_got_ack = False\<rparr>))) st'
      [(est_socket ex_client, ex_datagram, SockV4 ex_server), (est_socket ex_client, punch_msg, ex_peer 9)]"
    using ex_poll_silent by blast
  have env: "pe_recv (ex_env\<lparr>pe_punch := ex_silent\<rparr>) = RecvFrom (from_server_to_bytes ex_initiate) (SockV4 ex_server)"
    "pe_random (ex_env\<lparr>pe_punch := ex_silent\<rparr>) = 77" "pe_failed_at (ex_env\<lparr>pe_punch := ex_silent\<rparr>) = 4"
    by (simp_all add: ex_env_def)
  from poll_punch_failure [OF poll ex_client_ok, unfolded env] obtain k l p msg where
    k: "RecvFrom (from_server_to_bytes ex_initiate) (SockV4 ex_server) = RecvFrom msg (SockV4 (p2p_server_addr ex_client))"
      "from_server_try_parse msg = Ok (InitiateConnectionRequest k (sock4 (Ipv4 10 0 0 9) 700) 7 l)"
    and r: "bt_get (trusted_remotes ex_client) k = Some p"
      "\<forall>now. enabled_at now (trusted_remotes st') k \<longleftrightarrow> 4 + failure_retry_timeout p < now"
      "session_id st' = 77" "last_request_tm st' = None" by blast
  from k ex_parse [of ex_initiate] have "k = key_fill 2" by (simp add: ex_initiate_def del: from_server_to_bytes.simps)
  with r show ?thesis by blast
qed

text \<open>C9: One connection to a peer at a time: after a connection to a peer was returned, no further
  connection to that peer is returned until the user reports it closed or takes the peer off
  the trusted list.\<close>

theorem one_connection_per_peer:
  assumes "table_ok st" and "poll_accept ch ed windows env st = Answered (Some (Ok c)) st1 sent"
    and "run_client ch ed windows ops st1 = Some (st2, cs)"
    and "c' \<in> set cs" and "nc_pubkey c' = nc_pubkey c"
  shows "\<exists>op \<in> set ops. releases (nc_pubkey c) op"
proof (rule ccontr)
  assume "\<not> ?thesis"
  then have "\<forall>op \<in> set ops. \<not> releases (nc_pubkey c) op" by blast
  with active_run [OF assms(3) table_ok_poll [OF assms(2,1)] poll_connection_active [OF assms(2,1)]]
  have "nc_pubkey c \<notin> nc_pubkey ` set cs" by simp
  with assms(4,5) show False by (metis imageI)
qed

text \<open>The peer of the example closes the connection and is connected again in another session.\<close>

definition ex_env2 :: "i64 poll_env" where
  "ex_env2 = ex_env\<lparr>pe_recv := RecvFrom (from_server_to_bytes
     (InitiateConnectionRequest (key_fill 2) (sock4 (Ipv4 10 0 0 9) 700) 8 False)) (SockV4 ex_server)\<rparr>"

definition ex_closed :: "pubkey establisher" where
  "ex_closed = ex_connected\<lparr>trusted_remotes :=
     [(key_fill 2, peer_state_default\<lparr>last_accepted_session_id := Some 7\<rparr>)]\<rparr>"

lemma ex_closes: "on_connection_closed (key_fill 2) ex_connected = ex_closed"
  by (simp add: on_connection_closed_def or_default_def ex_connected_def ex_closed_def ex_client_def
      notified_def bt_get_def backoff_defs)

lemma ex_closed_request:
  assumes "pe_interfaces env = []" "pe_now env = 0" "pe_list_now env = 0" "pe_utc env = 5" "pe_sent_at env = 0"
  shows "\<exists>dg. poll_accept chrono_ms ed25519_plain False env ex_closed =
    receive_phase False env [(est_socket ex_connected, dg, SockV4 ex_server)] (ex_closed\<lparr>last_request_tm := Some 0\<rparr>)"
proof -
  obtain dg where dg: "signed_to_bytes chrono_ms ed25519_plain 5 (key_fill 1) (ConnectionRequest [key_fill 2] 77) = Ok dg"
    by (simp add: signed_to_bytes_def payload_to_bytes_def)
  note sel = ex_closed_def ex_connected_def ex_client_def
  have refresh: "refresh_socket False env ex_closed = Ok ex_closed"
    by (simp add: refresh_socket_def assms sel)
  have due: "request_due 0 ex_closed" by (simp add: request_due_def sel)
  have list: "new_available_remotes_list 0 ex_closed = ([key_fill 2], ex_closed)"
    by (simp add: new_available_remotes_list_def sel bt_range_from_def
        bt_range_to_def bt_range_above_def bt_keys_def is_discovery_enabled_def backoff_defs)
  have place: "place_connection_requests chrono_ms ed25519_plain env [key_fill 2] ex_closed =
      Ok (ex_closed\<lparr>last_request_tm := Some 0\<rparr>, [(est_socket ex_connected, dg, SockV4 ex_server)])"
    using dg by (simp add: place_connection_requests_def sel assms)
  show ?thesis by (rule exI [of _ dg]) (simp add: poll_accept_def refresh due list place assms)
qed

lemma ex_run: "\<exists>st c. run_client chrono_ms ed25519_plain False [Closed (key_fill 2), Poll ex_env2] ex_connected = Some (st, [c])
    \<and> nc_pubkey c = key_fill 2"
proof -
  have recv: "\<exists>c st' sent. receive_phase False ex_env2 [(est_socket ex_connected, dg, SockV4 ex_server)]
      (ex_closed\<lparr>last_request_tm := Some 0\<rparr>) = Answered (Some (Ok c)) st' sent \<and> nc_pubkey c = key_fill 2" for dg
    using ex_punch ex_parse [of "InitiateConnectionRequest (key_fill 2) (sock4 (Ipv4 10 0 0 9) 700) 8 False"]
    by (simp add: receive_phase_def ex_env2_def ex_env_def ex_closed_def ex_connected_def ex_client_def
        handle_initiate_def Let_def new_udp_socket_def bt_get_def is_discovery_enabled_def backoff_defs
        del: from_server_to_bytes.simps)
  have "pe_interfaces ex_env2 = []" "pe_now ex_env2 = 0" "pe_list_now ex_env2 = 0" "pe_utc ex_env2 = 5"
    "pe_sent_at ex_env2 = 0"
    by (simp_all add: ex_env2_def ex_env_def)
  from ex_closed_request [OF this]
  obtain dg where "poll_accept chrono_ms ed25519_plain False ex_env2 ex_closed =
      receive_phase False ex_env2 [(est_socket ex_connected, dg, SockV4 ex_server)] (ex_closed\<lparr>last_request_tm := Some 0\<rparr>)" ..
  with recv [of dg] show ?thesis by (auto simp: ex_closes)
qed

theorem one_connection_per_peer_witness:
  "\<exists>op \<in> set [Closed (key_fill 2), Poll ex_env2]. releases (nc_pubkey ex_connection) op"
proof -
  obtain st c where r: "run_client chrono_ms ed25519_plain False [Closed (key_fill 2), Poll ex_env2] ex_connected = Some (st, [c])"
    and k: "nc_pubkey c = key_fill 2"
    using ex_run by blast
  have "c \<in> set [c]" "nc_pubkey c = nc_pubkey ex_connection" using k by (simp_all add: ex_connection_def)
  from one_connection_per_peer [OF ex_client_ok ex_poll r this] show ?thesis .
qed

text \<open>The datagram of a call is a notification of session \<open>rid\<close> of peer \<open>k\<close>.\<close>

definition notice_of :: "'dt poll_env \<Rightarrow> pubkey \<Rightarrow> u32 \<Rightarrow> bool" where
  "notice_of env k rid \<longleftrightarrow> (\<exists>msg src a l. pe_recv env = RecvFrom msg src
     \<and> from_server_try_parse msg = Ok (InitiateConnectionRequest k a rid l))"

text \<open>The operations that keep the last session of \<open>k\<close>: it stays on the list, and no other session is announced.\<close>

fun keeps_session :: "pubkey \<Rightarrow> u32 \<Rightarrow> 'dt client_op \<Rightarrow> bool" where
  "keeps_session k rid (Poll env) = (\<forall>rid'. notice_of env k rid' \<longrightarrow> rid' = rid)"
| "keeps_session k rid (AddTrusted _) = True"
| "keeps_session k rid (RemoveTrusted j) = (j \<noteq> k)"
| "keeps_session k rid (SetTrusted ks) = (k \<in> set ks)"
| "keeps_session k rid (Closed _) = True"

definition remembers :: "'sk establisher \<Rightarrow> pubkey \<Rightarrow> u32 \<Rightarrow> bool" where
  "remembers st k rid \<longleftrightarrow> (\<exists>p. bt_get (trusted_remotes st) k = Some p \<and> last_accepted_session_id p = Some rid)"

lemma punched_notice: "punched env st k p a rid l out punches \<Longrightarrow> notice_of env k rid"
  by (auto simp: punched_def notice_of_def)

lemma punched_forgets: "punched env st k p a rid l out punches \<Longrightarrow> \<not> remembers st k rid"
  by (auto simp: punched_def remembers_def)

lemma punch_entry_session: "last_accepted_session_id (punch_entry env k rid p out) = Some rid"
  by (cases out) (simp_all add: punch_entry_def punch_failed_def punch_succeeded_def notified_def Let_def)

lemma poll_remembers:
  assumes "poll_accept ch ed windows env st = Answered r st' sent" and "table_ok st"
    and "remembers st k rid" and "\<And>rid'. notice_of env k rid' \<Longrightarrow> rid' = rid"
  shows "remembers st' k rid" and "\<And>c. r = Some (Ok c) \<Longrightarrow> nc_pubkey c \<noteq> k"
proof -
  from assms(1,2) have "remembers st' k rid \<and> (\<forall>c. r = Some (Ok c) \<longrightarrow> nc_pubkey c \<noteq> k)"
  proof (cases rule: poll_accept_effect)
    case quiet
    with assms(3) show ?thesis by (simp add: remembers_def idle_answer_def)
  next
    case (tried j p a rid' l out punches reqs sock)
    have "j \<noteq> k" using punched_forgets [OF tried(1)] punched_notice [OF tried(1)] assms(3,4) by blast
    with tried(2,3) assms(3) table_okD(1) [OF assms(2)] show ?thesis
      by (cases out) (auto simp: remembers_def punch_answer_def)
  qed
  then show "remembers st' k rid" and "\<And>c. r = Some (Ok c) \<Longrightarrow> nc_pubkey c \<noteq> k" by blast+
qed

lemma step_remembers:
  assumes "client_step ch ed windows op st = Some (st', cs)" and "table_ok st"
    and "remembers st k rid" and "keeps_session k rid op"
  shows "remembers st' k rid \<and> k \<notin> nc_pubkey ` set cs"
proof (cases op)
  case (Poll env)
  with assms(1) obtain r sent where poll: "poll_accept ch ed windows env st = Answered r st' sent"
    and cs: "cs = (case r of Some (Ok c) \<Rightarrow> [c] | _ \<Rightarrow> [])"
    by (auto elim: client_step_Poll simp del: client_step.simps)
  from poll_remembers [OF poll assms(2,3)] assms(4) cs show ?thesis
    by (auto simp: Poll split: option.splits res.splits)
next
  case (SetTrusted ks)
  with assms table_okD(1) [OF assms(2)] show ?thesis by (auto simp: remembers_def get_set_trusted_remote_list)
next
  case (Closed j)
  with assms table_okD(1) [OF assms(2)] show ?thesis by (auto simp: remembers_def get_on_connection_closed)
next
  case (AddTrusted j)
  with assms table_okD(1) [OF assms(2)] show ?thesis by (auto simp: remembers_def add_trusted_remote_def get_or_default)
next
  case (RemoveTrusted j)
  with assms table_okD(1) [OF assms(2)] show ?thesis by (auto simp: remembers_def remove_trusted_remote_def)
qed

lemma run_remembers:
  assumes "run_client ch ed windows ops st = Some (st', cs)" and "table_ok st"
    and "remembers st k rid" and "\<forall>op \<in> set ops. keeps_session k rid op"
  shows "table_ok st' \<and> remembers st' k rid \<and> k \<notin> nc_pubkey ` set cs"
  using assms
proof (induction ops arbitrary: st cs)
  case (Cons op ops)
  from Cons.prems(1) obtain st1 cs1 cs2 where s: "client_step ch ed windows op st = Some (st1, cs1)"
    and r: "run_client ch ed windows ops st1 = Some (st', cs2)" and cs: "cs = cs1 @ cs2"
    by (auto split: option.splits)
  from step_remembers [OF s Cons.prems(2,3)] table_ok_client_step [OF s Cons.prems(2)] Cons.IH [OF r] Cons.prems(4) cs
  show ?case by auto
qed simp

lemma run_client_snoc:
  "run_client ch ed windows (ops @ ops') st =
    (case run_client ch ed windows ops st of None \<Rightarrow> None
     | Some (st', cs) \<Rightarrow> (case run_client ch ed windows ops' st' of None \<Rightarrow> None | Some (st'', cs') \<Rightarrow> Some (st'', cs @ cs')))"
  by (induction ops arbitrary: st) (auto split: option.split)

text \<open>C21: A notification that is repeated is not acted on again. After the client punched a hole for a
  notification of session \<open>rid\<close> of peer \<open>k\<close>, successfully or not, no further copy of it leads to a hole
  punch, changes the table or returns a connection, whatever other calls, closes and edits of the list lie
  in between, as long as the peer stays on the list and no other session of that peer is
  announced: the client remembers the last session only.\<close>

theorem notification_acted_on_once:
  assumes "table_ok st\<^sub>0" and "poll_accept ch ed windows env\<^sub>0 st\<^sub>0 = Answered r\<^sub>0 st sent\<^sub>0"
    and "notice_of env\<^sub>0 k rid" and "(\<exists>c. r\<^sub>0 = Some (Ok c)) \<or> (\<exists>a e. r\<^sub>0 = Some (Err (HandlingInitiate a rid e)))"
    and "run_client ch ed windows ops st = Some (st1, cs)" and "\<forall>op \<in> set ops. keeps_session k rid op"
    and "notice_of env k rid" and "poll_accept ch ed windows env st1 = Answered r st2 sent"
  shows "k \<notin> nc_pubkey ` set cs \<and> trusted_remotes st2 = trusted_remotes st1 \<and> (\<forall>c. r \<noteq> Some (Ok c))
    \<and> request_sent ch ed env st1 sent"
proof -
  from assms(2,1) have "remembers st k rid"
  proof (cases rule: poll_accept_effect)
    case (tried j p' a' rid' l' out' punches' reqs sock)
    with assms(3) have "j = k" "rid' = rid" by (auto simp: punched_def notice_of_def)
    with tried(3) table_okD(1) [OF assms(1)] show ?thesis by (simp add: remembers_def punch_entry_session)
  next
    case quiet
    with assms(4) show ?thesis by (auto simp: idle_answer_def)
  qed
  from run_remembers [OF assms(5) table_ok_poll [OF assms(2,1)] this assms(6)]
  have st1: "table_ok st1" "remembers st1 k rid" "k \<notin> nc_pubkey ` set cs" by blast+
  from assms(8) st1(1) show ?thesis
  proof (cases rule: poll_accept_effect)
    case quiet
    with st1(3) show ?thesis by (simp add: idle_answer_def)
  next
    case (tried j p' a' rid' l' out' punches' reqs sock)
    with assms(7) have "j = k" "rid' = rid" by (auto simp: punched_def notice_of_def)
    with punched_forgets [OF tried(1)] st1(2) show ?thesis by simp
  qed
qed

text \<open>The connection of the example is closed, a call hears nothing, and then the notification comes again.\<close>

definition ex_silence :: "i64 poll_env" where "ex_silence = ex_env\<lparr>pe_recv := RecvTimedOut\<rparr>"

abbreviation ex_idle :: "pubkey establisher" where "ex_idle \<equiv> ex_closed\<lparr>last_request_tm := Some 0\<rparr>"

lemma ex_idle_run: "run_client chrono_ms ed25519_plain False [Closed (key_fill 2), Poll ex_silence] ex_connected = Some (ex_idle, [])"
proof -
  have "pe_interfaces ex_silence = []" "pe_now ex_silence = 0" "pe_list_now ex_silence = 0" "pe_utc ex_silence = 5"
    "pe_sent_at ex_silence = 0"
    by (simp_all add: ex_silence_def ex_env_def)
  from ex_closed_request [OF this] show ?thesis by (auto simp: ex_closes receive_phase_def ex_silence_def)
qed

lemma ex_idle_poll: "poll_accept chrono_ms ed25519_plain False ex_env ex_idle = Answered None ex_idle []"
proof -
  note sel = ex_closed_def ex_connected_def ex_client_def ex_env_def
  have "refresh_socket False ex_env ex_idle = Ok ex_idle" by (simp add: refresh_socket_def sel)
  moreover have "\<not> request_due (pe_now ex_env) ex_idle"
    by (simp add: request_due_def sel time_simps REQUEST_PLACEMENT_INTERVAL_def)
  moreover have "receive_phase False ex_env [] ex_idle = Answered None ex_idle []"
    using ex_parse [of ex_initiate]
    by (simp add: receive_phase_def sel ex_initiate_def handle_initiate_def bt_get_def is_discovery_enabled_def
        backoff_defs del: from_server_to_bytes.simps)
  ultimately show ?thesis by (simp add: poll_accept_def)
qed

lemma ex_notice: "notice_of ex_env k rid \<longleftrightarrow> k = key_fill 2 \<and> rid = 7" "\<not> notice_of ex_silence k rid"
  using ex_parse [of ex_initiate]
  by (auto simp: notice_of_def ex_env_def ex_silence_def ex_initiate_def simp del: from_server_to_bytes.simps)

theorem notification_acted_on_once_witness:
  "\<exists>st\<^sub>1 r st\<^sub>2 sent. run_client chrono_ms ed25519_plain False [Closed (key_fill 2), Poll ex_silence] ex_connected = Some (st\<^sub>1, [])
    \<and> poll_accept chrono_ms ed25519_plain False ex_env st\<^sub>1 = Answered r st\<^sub>2 sent
    \<and> trusted_remotes st\<^sub>2 = trusted_remotes st\<^sub>1 \<and> (\<forall>c. r \<noteq> Some (Ok c)) \<and> request_sent chrono_ms ed25519_plain ex_env st\<^sub>1 sent"
proof -
  have n: "notice_of ex_env (key_fill 2) 7" by (simp add: ex_notice)
  have ops: "\<forall>op \<in> set [Closed (key_fill 2), Poll ex_silence]. keeps_session (key_fill 2) 7 op" by (simp add: ex_notice)
  have c: "(\<exists>c. Some (Ok ex_connection) = Some (Ok c)) \<or> (\<exists>a e. Some (Ok ex_connection) = Some (Err (HandlingInitiate a 7 e)))"
    by blast
  from notification_acted_on_once [OF ex_client_ok ex_poll n c ex_idle_run ops n ex_idle_poll] ex_idle_run ex_idle_poll
  show ?thesis by blast
qed

text \<open>
  The other way round: the client remembers the last session of a peer only. When sessions \<open>rid\<close>,
  \<open>rid'\<close> and \<open>rid\<close> of a peer are announced in turn, and each connection is closed before the next,
  then all three notifications are acted on.
\<close>

lemma poll_and_close:
  assumes "willing env st k rid" and "notice_of env k rid" and "\<And>msg src. pe_recv env = RecvFrom msg src \<Longrightarrow> src = SockV4 (p2p_server_addr st)"
    and "\<And>a. \<exists>dst punches. hole_punch (SockV4 a) (pe_punch env) = Some (Ok dst, punches)"
  shows "\<exists>st' c. run_client ch ed windows [Poll env, Closed k] st = Some (st', [c]) \<and> nc_pubkey c = k
    \<and> table_ok st' \<and> p2p_server_addr st' = p2p_server_addr st
    \<and> (\<exists>p. bt_get (trusted_remotes st') k = Some p \<and> state_kind p = Enabled \<and> last_accepted_session_id p = Some rid)"
proof -
  from assms(2,3) obtain msg a l where m: "pe_recv env = RecvFrom msg (SockV4 (p2p_server_addr st))"
    "from_server_try_parse msg = Ok (InitiateConnectionRequest k a rid l)" unfolding notice_of_def by blast
  obtain dst punches where "hole_punch (SockV4 a) (pe_punch env) = Some (Ok dst, punches)" using assms(4) by blast
  from poll_connects_willing [OF assms(1) m this, of ch ed windows] obtain c st1 sent where
    poll: "poll_accept ch ed windows env st = Answered (Some (Ok c)) st1 sent" and c: "nc_pubkey c = k" by fastforce
  have ok: "table_ok st" using assms(1) by (simp add: willing_def)
  from poll ok have entry: "p2p_server_addr st1 = p2p_server_addr st
      \<and> (\<exists>p. bt_get (trusted_remotes st1) k = Some p \<and> last_accepted_session_id p = Some rid)"
  proof (cases rule: poll_accept_effect)
    case (tried j p' a' rid' l' out punches' reqs sock)
    with m have "j = k" "rid' = rid" by (auto simp: punched_def)
    with tried(3,8) table_okD(1) [OF ok] show ?thesis by (simp add: punch_entry_session)
  qed simp
  have ok1: "table_ok st1" using poll ok by (rule table_ok_poll)
  have "p2p_server_addr (on_connection_closed k st1) = p2p_server_addr st1"
    by (rule client_step_edit(1) [of ch ed windows "Closed k" st1 _ "[]"]) simp_all
  moreover have "table_ok (on_connection_closed k st1)" using ok1 by (rule table_ok_on_connection_closed)
  moreover have "\<exists>p. bt_get (trusted_remotes (on_connection_closed k st1)) k = Some p \<and> state_kind p = Enabled
      \<and> last_accepted_session_id p = Some rid"
    using entry table_okD(1) [OF ok1] by (auto simp: get_on_connection_closed)
  moreover have "run_client ch ed windows [Poll env, Closed k] st = Some (on_connection_closed k st1, [c])"
    using poll by simp
  ultimately show ?thesis using c entry by (intro exI [of _ "on_connection_closed k st1"] exI [of _ c]) simp
qed

definition hears :: "'dt poll_env \<Rightarrow> sockaddr_v4 \<Rightarrow> pubkey \<Rightarrow> u32 \<Rightarrow> bool" where
  "hears env server k rid \<longleftrightarrow> notice_of env k rid \<and> (\<forall>msg src. pe_recv env = RecvFrom msg src \<longrightarrow> src = SockV4 server)
     \<and> os_ok (pe_bind env) \<and> os_ok (pe_bind' env)
     \<and> (\<forall>a. \<exists>dst punches. hole_punch (SockV4 a) (pe_punch env) = Some (Ok dst, punches))"

lemma hears_and_close:
  assumes "hears env (p2p_server_addr st) k rid" and "table_ok st"
    and "\<exists>p. bt_get (trusted_remotes st) k = Some p \<and> state_kind p = Enabled \<and> last_accepted_session_id p \<noteq> Some rid"
  shows "\<exists>st' c. run_client ch ed windows [Poll env, Closed k] st = Some (st', [c]) \<and> nc_pubkey c = k
    \<and> table_ok st' \<and> p2p_server_addr st' = p2p_server_addr st
    \<and> (\<exists>p. bt_get (trusted_remotes st') k = Some p \<and> state_kind p = Enabled \<and> last_accepted_session_id p = Some rid)"
proof (rule poll_and_close)
  show "willing env st k rid"
    using assms by (auto simp: willing_def hears_def is_discovery_enabled_def enabled_at_def intro!: exI [of _ k])
qed (use assms(1) in \<open>auto simp: hears_def\<close>)

lemma last_session_only:
  assumes "rid' \<noteq> rid" and "table_ok st"
    and "hears env\<^sub>1 (p2p_server_addr st) k rid" "hears env\<^sub>2 (p2p_server_addr st) k rid'" "hears env\<^sub>3 (p2p_server_addr st) k rid"
    and "\<exists>p. bt_get (trusted_remotes st) k = Some p \<and> state_kind p = Enabled \<and> last_accepted_session_id p \<noteq> Some rid"
  shows "\<exists>st' c\<^sub>1 c\<^sub>2 c\<^sub>3. run_client ch ed windows [Poll env\<^sub>1, Closed k, Poll env\<^sub>2, Closed k, Poll env\<^sub>3, Closed k] st =
      Some (st', [c\<^sub>1, c\<^sub>2, c\<^sub>3]) \<and> nc_pubkey c\<^sub>1 = k \<and> nc_pubkey c\<^sub>2 = k \<and> nc_pubkey c\<^sub>3 = k"
proof -
  from hears_and_close [OF assms(3,2,6), of ch ed windows] obtain st1 c1 where
    1: "run_client ch ed windows [Poll env\<^sub>1, Closed k] st = Some (st1, [c1])" "nc_pubkey c1 = k" "table_ok st1"
      "p2p_server_addr st1 = p2p_server_addr st"
    and p1: "\<exists>p. bt_get (trusted_remotes st1) k = Some p \<and> state_kind p = Enabled \<and> last_accepted_session_id p = Some rid" by blast
  from p1 assms(1) have "\<exists>p. bt_get (trusted_remotes st1) k = Some p \<and> state_kind p = Enabled \<and> last_accepted_session_id p \<noteq> Some rid'" by auto
  from hears_and_close [OF assms(4) [folded 1(4)] 1(3) this, of ch ed windows] obtain st2 c2 where
    2: "run_client ch ed windows [Poll env\<^sub>2, Closed k] st1 = Some (st2, [c2])" "nc_pubkey c2 = k" "table_ok st2"
      "p2p_server_addr st2 = p2p_server_addr st1"
    and p2: "\<exists>p. bt_get (trusted_remotes st2) k = Some p \<and> state_kind p = Enabled \<and> last_accepted_session_id p = Some rid'" by blast
  from p2 assms(1) have "\<exists>p. bt_get (trusted_remotes st2) k = Some p \<and> state_kind p = Enabled \<and> last_accepted_session_id p \<noteq> Some rid" by auto
  from hears_and_close [OF assms(5) [folded 1(4) 2(4)] 2(3) this, of ch ed windows] obtain st3 c3 where
    3: "run_client ch ed windows [Poll env\<^sub>3, Closed k] st2 = Some (st3, [c3])" "nc_pubkey c3 = k" by blast
  have "run_client ch ed windows ([Poll env\<^sub>1, Closed k] @ [Poll env\<^sub>2, Closed k] @ [Poll env\<^sub>3, Closed k]) st = Some (st3, [c1, c2, c3])"
    unfolding run_client_snoc 1(1) option.case prod.case 2(1) 3(1) by simp
  with 1(2) 2(2) 3(2) show ?thesis by auto
qed

lemma request_rate:
  assumes "request_sent ch ed env st reqs"
  shows "reqs = [] \<or> (\<exists>sock ks datagram. reqs = [(sock, datagram, SockV4 (p2p_server_addr st))]
    \<and> signed_to_bytes ch ed (pe_utc env) (est_key st) (ConnectionRequest ks (session_id st)) = Ok datagram
    \<and> 0 < length ks \<and> length ks \<le> 10 \<and> distinct ks
    \<and> (\<forall>k \<in> set ks. enabled_at (pe_list_now env) (trusted_remotes st) k)
    \<and> (\<forall>i. last_request_tm st = Some i \<longrightarrow> from_secs 3 \<le> elapsed (pe_now env) i))"
proof -
  have gap: "from_secs 3 \<le> elapsed now i" if "REQUEST_PLACEMENT_INTERVAL < as_secs (elapsed now i)" for now i
    using that as_secs_less [of 3 now i] by (auto simp: REQUEST_PLACEMENT_INTERVAL_def elapsed_def)
  then have "request_due (pe_now env) st \<Longrightarrow> \<forall>i. last_request_tm st = Some i \<longrightarrow> from_secs 3 \<le> elapsed (pe_now env) i"
    by (auto simp: request_due_def)
  with assms show ?thesis unfolding request_sent_def by blast
qed

text \<open>C18: What a call puts on the network: at most one signed request to the server, naming one to ten
  distinct peers whose discovery is enabled, under the client's current session id, and only if
  no request was sent in the last three seconds; then only the punches and acks of a hole punch
  to the address that an accepted notification named, or to one a punch came from.\<close>

theorem poll_sends:
  assumes "poll_accept ch ed windows env st = Answered r st' sent" and "table_ok st"
  shows "\<exists>reqs punches. sent = reqs @ punches
    \<and> (reqs = [] \<or> (\<exists>sock ks datagram. reqs = [(sock, datagram, SockV4 (p2p_server_addr st))]
        \<and> signed_to_bytes ch ed (pe_utc env) (est_key st) (ConnectionRequest ks (session_id st)) = Ok datagram
        \<and> 0 < length ks \<and> length ks \<le> 10 \<and> distinct ks
        \<and> (\<forall>k \<in> set ks. enabled_at (pe_list_now env) (trusted_remotes st) k)
        \<and> (\<forall>i. last_request_tm st = Some i \<longrightarrow> from_secs 3 \<le> elapsed (pe_now env) i)))
    \<and> (punches = [] \<or> (\<exists>k p a rid l out. punched env st k p a rid l out (map snd punches)
        \<and> (\<forall>(sock, m, dst) \<in> set punches. m \<in> {punch_msg, punch_ack_msg}
            \<and> dst \<in> set (SockV4 a # punch_sources (punch_timely (pe_punch env))))))"
  using assms
proof (cases rule: poll_accept_effect)
  case quiet
  with request_rate [OF quiet(3)] show ?thesis by (intro exI [of _ sent] exI [of _ "[]"]) simp
next
  case (tried k p a rid l out punches reqs sock)
  let ?ps = "map (Pair sock) punches"
  have h: "hole_punch (SockV4 a) (pe_punch env) = Some (out, punches)"
    using tried(1) by (simp add: punched_def)
  have "\<forall>(s, m, dst) \<in> set ?ps. m \<in> {punch_msg, punch_ack_msg}
      \<and> dst \<in> set (SockV4 a # punch_sources (punch_timely (pe_punch env)))"
    using hole_punch_packets [OF h] by fastforce
  moreover have "punched env st k p a rid l out (map snd ?ps)" using tried(1) by (simp add: comp_def)
  ultimately have "?ps = [] \<or> (\<exists>k p a rid l out. punched env st k p a rid l out (map snd ?ps)
      \<and> (\<forall>(sock, m, dst) \<in> set ?ps. m \<in> {punch_msg, punch_ack_msg}
          \<and> dst \<in> set (SockV4 a # punch_sources (punch_timely (pe_punch env)))))"
    by (intro disjI2 exI conjI)
  with request_rate [OF tried(6)] tried(7) show ?thesis by (intro exI [of _ reqs] exI [of _ ?ps] conjI)
qed

theorem poll_sends_witness:
  "\<exists>reqs punches. ex_sent = reqs @ punches
    \<and> (punches = [] \<or> (\<exists>k p a rid l out. punched ex_env ex_client k p a rid l out (map snd punches)
        \<and> (\<forall>(sock, m, dst) \<in> set punches. m \<in> {punch_msg, punch_ack_msg}
            \<and> dst \<in> set (SockV4 a # punch_sources (punch_timely (pe_punch ex_env))))))"
  using poll_sends [OF ex_poll ex_client_ok] by blast

text \<open>A packet that does not come from the server's address changes nothing: no peer, no session
  id, and the call returns nothing.\<close>

lemma poll_ignores_others:
  assumes "poll_accept ch ed windows env st = Answered r st' sent" and "table_ok st"
    and "pe_recv env = RecvFrom msg src" and "src \<noteq> SockV4 (p2p_server_addr st)"
  shows "r = None \<and> trusted_remotes st' = trusted_remotes st \<and> session_id st' = session_id st
    \<and> request_sent ch ed env st sent"
proof -
  have recv: "receive_phase windows env reqs st2 = Answered None st2 reqs" if "same_client st st2" for reqs st2
    using assms(3,4) that by (simp add: receive_phase_def same_client_def)
  have "request_sent ch ed env st sent"
    using assms(1,2)
  proof (cases rule: poll_accept_effect)
    case (tried k p a rid l out punches reqs sock)
    with assms(3,4) show ?thesis by (simp add: punched_def)
  qed
  with assms(1,2) show ?thesis
    by (cases rule: poll_accept_cases) (auto simp: recv same_client_def)
qed

lemma poll_ignores_others_witness:
  "\<exists>r st' sent. poll_accept chrono_ms ed25519_plain False
      (ex_env\<lparr>pe_recv := RecvFrom (from_server_to_bytes ex_initiate) (ex_peer 8)\<rparr>) ex_client = Answered r st' sent
    \<and> r = None \<and> trusted_remotes st' = trusted_remotes ex_client"
proof -
  let ?env = "ex_env\<lparr>pe_recv := RecvFrom (from_server_to_bytes ex_initiate) (ex_peer 8)\<rparr>"
  have "\<exists>st' sent. poll_accept chrono_ms ed25519_plain False ?env ex_client = Answered None st' sent"
    using ex_poll_request [of ?env]
    by (simp add: ex_env_def receive_phase_def ex_client_def ex_server_def ex_peer_def)
  then obtain st' sent where poll:
    "poll_accept chrono_ms ed25519_plain False ?env ex_client = Answered None st' sent" by blast
  have "ex_peer 8 \<noteq> SockV4 (p2p_server_addr ex_client)"
    by (simp add: ex_client_def ex_server_def ex_peer_def)
  with poll_ignores_others [OF poll ex_client_ok] poll show ?thesis by auto
qed

text \<open>Reporting a connection closed makes its peer available again and leaves every other peer alone;
  it also puts a peer back on the list of trusted peers that had been taken off it.\<close>

lemma connection_closed_retrusts:
  assumes "table_ok st"
  shows "bt_get (trusted_remotes (on_connection_closed k (remove_trusted_remote k st))) k = Some peer_state_default
    \<and> enabled_at now (trusted_remotes (on_connection_closed k st)) k
    \<and> (j \<noteq> k \<longrightarrow> bt_get (trusted_remotes (on_connection_closed k st)) j = bt_get (trusted_remotes st) j)"
proof -
  note ok = table_okD(1) [OF assms] table_okD(1) [OF table_ok_remove [OF assms, of k]]
  have "bt_get (trusted_remotes (remove_trusted_remote k st)) k = None"
    using ok(1) by (simp add: remove_trusted_remote_def)
  then show ?thesis
    using ok by (auto simp: get_on_connection_closed enabled_at_def is_discovery_enabled_def
        peer_state_default_def split: option.split)
qed

lemma connection_closed_retrusts_witness:
  "bt_get (trusted_remotes (on_connection_closed (key_fill 2) (remove_trusted_remote (key_fill 2) ex_client))) (key_fill 2)
     = Some peer_state_default"
  using connection_closed_retrusts [OF ex_client_ok] by blast

end
