(* ===== verification/Udp_System.thy ===== *)
theory Udp_System
  imports Udp_Server Udp_Client
begin

text \<open>
  The server (\<open>src/server/udp.rs\<close>) and any number of clients (\<open>src/udp/client.rs\<close>) over a network
  that loses, repeats, delays and reorders datagrams, next to strangers with keys of their own who
  send the server whatever they like. What is assumed of the network and of the signatures is
  stated in two definitions: \<open>delivered\<close> (what comes from the server's address to a client was sent
  by the server to an address of that client) and \<open>genuine\<close> (a request signed with a client's key
  was made by that client, and comes from an address exactly if its key is that of the address's
  owner). Without the second part consent fails: see \<open>replay_redirects\<close>.
\<close>

subsection \<open>The system\<close>

text \<open>The parameters: the crates, the platform, who owns an address, and the clients' public keys.\<close>

record ('dt, 'sk) network =
  nw_chrono :: "'dt chrono"
  nw_ed25519 :: "'sk ed25519"
  nw_windows :: bool
  nw_owner :: "sockaddr_v4 \<Rightarrow> nat option"
  nw_keys :: "nat \<Rightarrow> pubkey option"

text \<open>The state: the clients, the server, every datagram a client has sent, every notice of the server.\<close>

record 'sk udp_system =
  sy_clients :: "nat \<Rightarrow> 'sk establisher option"
  sy_server :: udp_state
  sy_datagrams :: "(nat \<times> bytes) list"
  sy_notices :: "(sockaddr_v4 \<times> bytes) list"

definition delivered :: "('dt, 'sk) network \<Rightarrow> 'sk udp_system \<Rightarrow> nat \<Rightarrow> 'sk establisher \<Rightarrow> 'dt poll_env \<Rightarrow> bool" where
  "delivered w s n st env \<longleftrightarrow> (\<forall>msg. pe_recv env = RecvFrom msg (SockV4 (p2p_server_addr st)) \<longrightarrow>
     (\<exists>a. nw_owner w a = Some n \<and> (a, msg) \<in> set (sy_notices s)))"

definition genuine :: "('dt, 'sk) network \<Rightarrow> 'sk udp_system \<Rightarrow> sockaddr_v4 \<Rightarrow> bytes \<Rightarrow> bool" where
  "genuine w s src msg \<longleftrightarrow> (\<forall>m k t. signed_try_parse (nw_chrono w) (nw_ed25519 w) msg = Ok (m, k, t) \<longrightarrow>
     (\<forall>n. (nw_owner w src = Some n \<longleftrightarrow> nw_keys w n = Some k)
        \<and> (nw_keys w n = Some k \<longrightarrow> (\<exists>d. (n, d) \<in> set (sy_datagrams s)
             \<and> signed_try_parse (nw_chrono w) (nw_ed25519 w) d = Ok (m, k, t)))))"

definition net_start :: "('dt, 'sk) network \<Rightarrow> 'sk udp_system \<Rightarrow> bool" where
  "net_start w s \<longleftrightarrow> sy_server s = udp_state_new \<and> sy_datagrams s = [] \<and> sy_notices s = []
     \<and> (\<forall>n st. sy_clients s n = Some st \<longrightarrow> table_ok st)"

text \<open>A client polls, the server handles a datagram, or the user of a client edits its trusted peers.\<close>

inductive net_step :: "('dt, 'sk) network \<Rightarrow> 'sk udp_system \<Rightarrow> 'sk udp_system \<Rightarrow> bool" for w where
  poll: "sy_clients s n = Some st \<Longrightarrow> delivered w s n st env \<Longrightarrow>
    poll_accept (nw_chrono w) (nw_ed25519 w) (nw_windows w) env st = Answered r st' sent \<Longrightarrow>
    net_step w s (s\<lparr>sy_clients := (sy_clients s)(n \<mapsto> st'),
      sy_datagrams := sy_datagrams s @ map (\<lambda>(socket, payload, dst). (n, payload)) sent\<rparr>)"
| serve: "genuine w s src msg \<Longrightarrow>
    handle_datagram (nw_chrono w) (nw_ed25519 w) utc now (SockV4 src) msg (sy_server s) = Ok (sv, out) \<Longrightarrow>
    net_step w s (s\<lparr>sy_server := sv, sy_notices := sy_notices s @ out\<rparr>)"
| edit: "sy_clients s n = Some st \<Longrightarrow> (\<And>env. op \<noteq> Poll env) \<Longrightarrow>
    client_step (nw_chrono w) (nw_ed25519 w) (nw_windows w) op st = Some (st', cs) \<Longrightarrow>
    net_step w s (s\<lparr>sy_clients := (sy_clients s)(n \<mapsto> st')\<rparr>)"

inductive net_reachable :: "('dt, 'sk) network \<Rightarrow> 'sk udp_system \<Rightarrow> bool" for w where
  start: "net_start w s \<Longrightarrow> net_reachable w s"
| step: "net_reachable w s \<Longrightarrow> net_step w s s' \<Longrightarrow> net_reachable w s'"

subsection \<open>The invariant\<close>

text \<open>Client \<open>n\<close> has sent a signed request that names \<open>j\<close>.\<close>

definition asked :: "('dt, 'sk) network \<Rightarrow> 'sk udp_system \<Rightarrow> nat \<Rightarrow> pubkey \<Rightarrow> bool" where
  "asked w s n j \<longleftrightarrow> (\<exists>d ks sid k t. (n, d) \<in> set (sy_datagrams s)
     \<and> signed_try_parse (nw_chrono w) (nw_ed25519 w) d = Ok (ConnectionRequest ks sid, k, t) \<and> j \<in> set ks)"

text \<open>The address is one of the client with that key, or of nobody if no client has it.\<close>

definition key_at :: "('dt, 'sk) network \<Rightarrow> sockaddr_v4 \<Rightarrow> pubkey \<Rightarrow> bool" where
  "key_at w a k \<longleftrightarrow> (\<forall>n. nw_owner w a = Some n \<longleftrightarrow> nw_keys w n = Some k)"

definition asked_by :: "('dt, 'sk) network \<Rightarrow> 'sk udp_system \<Rightarrow> pubkey \<Rightarrow> pubkey \<Rightarrow> bool" where
  "asked_by w s k j \<longleftrightarrow> (\<forall>n. nw_keys w n = Some k \<longrightarrow> asked w s n j)"

definition genuine_request :: "('dt, 'sk) network \<Rightarrow> 'sk udp_system \<Rightarrow> request \<Rightarrow> bool" where
  "genuine_request w s r \<longleftrightarrow> valid_request r \<and> key_at w (rq_addr r) (rq_sender r)
     \<and> (\<forall>j \<in> set (rq_peers r). asked_by w s (rq_sender r) j)"

text \<open>A notice for a client names a peer that asked for it and that it asked for, and its twin, with the
  other role, went to the address it gives.\<close>

definition notice_ok :: "('dt, 'sk) network \<Rightarrow> 'sk udp_system \<Rightarrow> sockaddr_v4 \<times> bytes \<Rightarrow> bool" where
  "notice_ok w s = (\<lambda>(dst, msg). \<forall>k a sid l. from_server_try_parse msg = Ok (InitiateConnectionRequest k a sid l) \<longrightarrow>
     (\<exists>x sid'. (a, from_server_to_bytes (InitiateConnectionRequest x dst sid' (\<not> l))) \<in> set (sy_notices s)
        \<and> key_at w dst x \<and> key_at w a k \<and> asked_by w s k x \<and> asked_by w s x k))"

definition net_inv :: "('dt, 'sk) network \<Rightarrow> 'sk udp_system \<Rightarrow> bool" where
  "net_inv w s \<longleftrightarrow> (\<forall>n st. sy_clients s n = Some st \<longrightarrow> table_ok st)
     \<and> (\<exists>rs. sy_server s = served rs \<and> (\<forall>r \<in> set rs. genuine_request w s r))
     \<and> (\<forall>notice \<in> set (sy_notices s). notice_ok w s notice)"

text \<open>More datagrams and more notices keep what was established.\<close>

lemma asked_mono:
  "set (sy_datagrams s) \<subseteq> set (sy_datagrams s') \<Longrightarrow> asked_by w s k j \<Longrightarrow> asked_by w s' k j"
  unfolding asked_by_def asked_def by blast

lemma genuine_request_mono:
  "set (sy_datagrams s) \<subseteq> set (sy_datagrams s') \<Longrightarrow> genuine_request w s r \<Longrightarrow> genuine_request w s' r"
  unfolding genuine_request_def using asked_mono by blast

lemma notice_ok_mono:
  assumes "set (sy_datagrams s) \<subseteq> set (sy_datagrams s')" and "set (sy_notices s) \<subseteq> set (sy_notices s')"
    and "notice_ok w s notice"
  shows "notice_ok w s' notice"
proof -
  obtain dst msg where n: "notice = (dst, msg)" by (cases notice)
  from assms(3) show ?thesis
    unfolding n notice_ok_def prod.case using assms(2) asked_mono [OF assms(1), of w] by (meson subsetD)
qed

text \<open>A request the server accepts is genuine.\<close>

lemma genuine_served:
  assumes "genuine w s src msg"
    and p: "signed_try_parse (nw_chrono w) (nw_ed25519 w) msg = Ok (ConnectionRequest peers sid, k, t)"
  shows "genuine_request w s \<lparr>rq_now = now, rq_addr = src, rq_sender = k, rq_peers = peers, rq_session = sid\<rparr>"
proof -
  have "0 < length peers \<and> length peers \<le> 10"
    using p payload_try_parse_bounds by (auto simp: signed_try_parse_raw)
  moreover from assms(1) p have "key_at w src k" by (simp add: genuine_def key_at_def)
  moreover from assms(1) p have "\<forall>j \<in> set peers. asked_by w s k j"
    unfolding genuine_def asked_by_def asked_def by blast
  ultimately show ?thesis by (simp add: genuine_request_def valid_request_def)
qed

text \<open>The two notices of a match of genuine requests.\<close>

lemma match_notices_ok:
  assumes "genuine_request w s q" and "genuine_request w s r" and "mutual q r"
    and "set (sy_datagrams s) = set (sy_datagrams s')"
    and "(rq_addr q, from_server_to_bytes (to_original r)) \<in> set (sy_notices s')"
      "(rq_addr r, from_server_to_bytes (to_new (new_pending q))) \<in> set (sy_notices s')"
  shows "notice_ok w s' (rq_addr q, from_server_to_bytes (to_original r))"
    "notice_ok w s' (rq_addr r, from_server_to_bytes (to_new (new_pending q)))"
proof -
  have m: "asked_by w s' (rq_sender q) (rq_sender r)" "asked_by w s' (rq_sender r) (rq_sender q)"
    using assms(1-4) unfolding genuine_request_def mutual_def by (auto intro: asked_mono [of s s'])
  have k: "key_at w (rq_addr q) (rq_sender q)" "key_at w (rq_addr r) (rq_sender r)"
    using assms(1,2) by (simp_all add: genuine_request_def)
  show "notice_ok w s' (rq_addr q, from_server_to_bytes (to_original r))"
    unfolding notice_ok_def using m k assms(6)
    by (auto simp: to_original_def to_new_def server_codec.dec_enc_exact simp del: from_server_to_bytes.simps)
  show "notice_ok w s' (rq_addr r, from_server_to_bytes (to_new (new_pending q)))"
    unfolding notice_ok_def using m k assms(5)
    by (auto simp: to_original_def to_new_def server_codec.dec_enc_exact simp del: from_server_to_bytes.simps)
qed

lemma served_notices_ok:
  assumes "sy_server s = served rs" and "\<forall>r \<in> set rs. genuine_request w s r"
    and "genuine_request w s r" and "snd (handle_request r (sy_server s)) = out"
    and "set (sy_datagrams s) = set (sy_datagrams s')"
    and "\<forall>(dst, m) \<in> set out. (dst, from_server_to_bytes m) \<in> set (sy_notices s')"
  shows "\<forall>(dst, m) \<in> set out. notice_ok w s' (dst, from_server_to_bytes m)"
proof -
  have "\<forall>q \<in> set rs. valid_request q" using assms(2) by (simp add: genuine_request_def)
  note inv = served_inv [OF this]
  show ?thesis
  proof (cases rule: handle_request_out_cases [OF inv, of r, case_names silent lost matched])
    case silent
    with assms(1,4) show ?thesis by auto
  next
    case (lost a)
    with assms(1,4) show ?thesis
      by (auto simp: notice_ok_def server_codec.dec_enc_exact simp del: from_server_to_bytes.simps)
  next
    case (matched q)
    then have out: "out = [(rq_addr q, to_original r), (rq_addr r, to_new (new_pending q))]"
      using assms(1,4) by simp
    from matched(1) assms(2) have "genuine_request w s q" by simp
    from match_notices_ok [OF this assms(3) matched(2) assms(5)] assms(6) show ?thesis
      by (simp add: out)
  qed
qed

lemma net_invD:
  assumes "net_inv w s"
  obtains rs where "sy_server s = served rs" "\<forall>r \<in> set rs. genuine_request w s r"
    "\<forall>n st. sy_clients s n = Some st \<longrightarrow> table_ok st" "\<forall>notice \<in> set (sy_notices s). notice_ok w s notice"
  using assms unfolding net_inv_def by blast

text \<open>A step that leaves the server and its notices alone.\<close>

lemma net_inv_client:
  assumes "net_inv w s" and "table_ok st"
    and s': "sy_clients s' = (sy_clients s)(n \<mapsto> st)" "sy_server s' = sy_server s" "sy_notices s' = sy_notices s"
      "set (sy_datagrams s) \<subseteq> set (sy_datagrams s')"
  shows "net_inv w s'"
proof -
  from assms(1) obtain rs where rs: "sy_server s = served rs" "\<forall>r \<in> set rs. genuine_request w s r"
    and cl: "\<forall>n st. sy_clients s n = Some st \<longrightarrow> table_ok st"
    and no: "\<forall>notice \<in> set (sy_notices s). notice_ok w s notice"
    by (rule net_invD)
  have "\<forall>r \<in> set rs. genuine_request w s' r" using rs(2) genuine_request_mono [OF s'(4)] by blast
  moreover have "\<forall>notice \<in> set (sy_notices s'). notice_ok w s' notice"
    using no notice_ok_mono [OF s'(4), of w] s'(3) by simp
  ultimately show ?thesis unfolding net_inv_def using rs(1) cl assms(2) s'(1,2) by auto
qed

lemma net_inv_serve:
  assumes "net_inv w s" and "genuine w s src msg"
    and handled: "handle_datagram (nw_chrono w) (nw_ed25519 w) utc now (SockV4 src) msg (sy_server s) = Ok (sv, out)"
  shows "net_inv w (s\<lparr>sy_server := sv, sy_notices := sy_notices s @ out\<rparr>)"
proof -
  let ?s = "s\<lparr>sy_server := sv, sy_notices := sy_notices s @ out\<rparr>"
  from assms(1) obtain rs where rs: "sy_server s = served rs" "\<forall>r \<in> set rs. genuine_request w s r"
    and cl: "\<forall>n st. sy_clients s n = Some st \<longrightarrow> table_ok st"
    and no: "\<forall>notice \<in> set (sy_notices s). notice_ok w s notice"
    by (rule net_invD)
  have old: "\<forall>r \<in> set rs. genuine_request w ?s r" "\<forall>notice \<in> set (sy_notices s). notice_ok w ?s notice"
    using rs(2) no genuine_request_mono [of s ?s w] notice_ok_mono [of s ?s w] by simp_all
  from handled show ?thesis
  proof (cases rule: handle_datagram_cases)
    case ignored
    with old rs(1) cl show ?thesis unfolding net_inv_def by auto
  next
    case (served addr peers sid k t)
    let ?r = "\<lparr>rq_now = now, rq_addr = addr, rq_sender = k, rq_peers = peers, rq_session = sid\<rparr>"
    from genuine_served [OF assms(2) served(2)] served(1) have g: "genuine_request w s ?r" by simp
    have "\<forall>(dst, m) \<in> set (snd (handle_request ?r (sy_server s))). notice_ok w ?s (dst, from_server_to_bytes m)"
      by (rule served_notices_ok [OF rs g refl]) (auto simp: served(5))
    then have "\<forall>notice \<in> set (sy_notices ?s). notice_ok w ?s notice" using old(2) by (auto simp: served(5))
    moreover have "\<forall>r \<in> set (rs @ [?r]). genuine_request w ?s r"
      using old(1) genuine_request_mono [of s ?s w, OF _ g] by simp
    moreover have "sy_server ?s = Udp_Server.served (rs @ [?r])" using served(4) rs(1) by (simp add: served_snoc)
    moreover have "sy_clients ?s = sy_clients s" by simp
    ultimately show ?thesis unfolding net_inv_def using cl by metis
  qed
qed

lemma net_inv_step:
  assumes inv: "net_inv w s" and "net_step w s s'"
  shows "net_inv w s'"
  using assms(2)
proof cases
  case (poll n st env r st' sent)
  have "table_ok st" using inv poll(2) by (auto elim: net_invD)
  from table_ok_poll [OF poll(4) this] show ?thesis
    by (rule net_inv_client [OF inv]) (auto simp: poll(1))
next
  case (edit n st op st' cs)
  have "table_ok st" using inv edit(2) by (auto elim: net_invD)
  from table_ok_client_step [OF edit(4) this] show ?thesis
    by (rule net_inv_client [OF inv]) (auto simp: edit(1))
next
  case (serve src msg utc now sv out)
  show ?thesis unfolding serve(1) by (rule net_inv_serve [OF inv serve(2,3)])
qed

lemma net_inv_reachable: "net_reachable w s \<Longrightarrow> net_inv w s"
proof (induction rule: net_reachable.induct)
  case (start s)
  then show ?case
    unfolding net_inv_def net_start_def by (auto intro!: exI [of _ "[]"] simp: served_def)
next
  case (step s s')
  then show ?case by (blast intro: net_inv_step)
qed

subsection \<open>Properties\<close>

text \<open>C4: Consent of both ends. In every reachable state of the network: when a call of client \<open>n\<close> returns
  a connection for the key of client \<open>m\<close>, then both have asked for each other in signed requests,
  the hole was punched to an address of \<open>m\<close>, and the server has sent that address the twin of the
  notice that \<open>n\<close> acted on, which names \<open>n\<close>, an address of \<open>n\<close> and the other of the two roles.\<close>

theorem mutual_consent:
  assumes "net_reachable w s" and "sy_clients s n = Some st" and "delivered w s n st env"
    and "poll_accept (nw_chrono w) (nw_ed25519 w) (nw_windows w) env st = Answered (Some (Ok c)) st' sent"
    and "nw_keys w m = Some (nc_pubkey c)"
  shows "\<exists>k a b sid packets. nw_keys w n = Some k
    \<and> asked w s m k \<and> asked w s n (nc_pubkey c) \<and> nw_owner w a = Some n \<and> nw_owner w b = Some m
    \<and> (b, from_server_to_bytes (InitiateConnectionRequest k a sid (\<not> nc_is_listener c))) \<in> set (sy_notices s)
    \<and> hole_punch (SockV4 b) (pe_punch env) = Some (Ok (nc_remote_addr c), packets)"
proof -
  note inv = net_inv_reachable [OF assms(1), unfolded net_inv_def]
  then have "table_ok st" using assms(2) by blast
  from poll_connection_source [OF assms(4) this] obtain msg b rid packets where
    recv: "pe_recv env = RecvFrom msg (SockV4 (p2p_server_addr st))"
    and parse: "from_server_try_parse msg = Ok (InitiateConnectionRequest (nc_pubkey c) b rid (nc_is_listener c))"
    and punch: "hole_punch (SockV4 b) (pe_punch env) = Some (Ok (nc_remote_addr c), packets)" .
  from assms(3) recv obtain a where a: "nw_owner w a = Some n" "(a, msg) \<in> set (sy_notices s)"
    by (auto simp: delivered_def)
  from inv a(2) have "notice_ok w s (a, msg)" by blast
  with parse obtain x sid where
    x: "(b, from_server_to_bytes (InitiateConnectionRequest x a sid (\<not> nc_is_listener c))) \<in> set (sy_notices s)"
      "key_at w a x" "key_at w b (nc_pubkey c)" "asked_by w s (nc_pubkey c) x" "asked_by w s x (nc_pubkey c)"
    unfolding notice_ok_def prod.case by blast
  from x(2) a(1) have "nw_keys w n = Some x" unfolding key_at_def by blast
  with x assms(5) a(1) punch show ?thesis unfolding key_at_def asked_by_def by blast
qed

text \<open>Two clients that trust each other's key, on two addresses.\<close>

definition ex_two :: "u8 \<Rightarrow> u8 \<Rightarrow> u32 \<Rightarrow> pubkey establisher" where
  "ex_two i j sid = ex_client\<lparr>trusted_remotes := [(key_fill j, peer_state_default)], est_key := key_fill i, session_id := sid\<rparr>"

definition ex_addr :: "u8 \<Rightarrow> sockaddr_v4" where
  "ex_addr i = (if i = 1 then sock4 (Ipv4 1 2 3 4) 5 else sock4 (Ipv4 5 6 7 8) 9)"

definition ex_asks :: "u8 \<Rightarrow> u8 \<Rightarrow> u32 \<Rightarrow> instant \<Rightarrow> request" where
  "ex_asks i j sid now = \<lparr>rq_now = now, rq_addr = ex_addr i, rq_sender = key_fill i, rq_peers = [key_fill j], rq_session = sid\<rparr>"

definition ex_net :: "(i64, pubkey) network" where
  "ex_net = \<lparr>nw_chrono = chrono_ms, nw_ed25519 = ed25519_plain, nw_windows = False,
     nw_owner = [ex_addr 1 \<mapsto> 0, ex_addr 2 \<mapsto> 1], nw_keys = [0 \<mapsto> key_fill 1, 1 \<mapsto> key_fill 2]\<rparr>"

definition ex_quiet :: "i64 poll_env" where "ex_quiet = ex_env\<lparr>pe_recv := RecvTimedOut\<rparr>"

definition ex_waiting :: "u8 \<Rightarrow> pubkey establisher \<Rightarrow> bool" where
  "ex_waiting j st \<longleftrightarrow> trusted_remotes st = [(key_fill j, peer_state_default)] \<and> last_request_tm st = Some 0
     \<and> p2p_server_addr st = ex_server \<and> cur_interface st = None"

lemma ex_net_sel [simp]:
  "nw_chrono ex_net = chrono_ms" "nw_ed25519 ex_net = ed25519_plain" "nw_windows ex_net = False"
  "nw_owner ex_net = [ex_addr 1 \<mapsto> 0, ex_addr 2 \<mapsto> 1]" "nw_keys ex_net = [0 \<mapsto> key_fill 1, 1 \<mapsto> key_fill 2]"
  "ex_addr 1 \<noteq> ex_addr 2" "ex_addr 2 \<noteq> ex_addr 1"
  by (simp_all add: ex_net_def ex_addr_def)

lemma ex_two_polls:
  obtains d st where
    "poll_accept chrono_ms ed25519_plain False ex_quiet (ex_two i j sid) =
      Answered None st [(est_socket ex_client, d, SockV4 ex_server)]"
    "signed_to_bytes chrono_ms ed25519_plain 5 (key_fill i) (ConnectionRequest [key_fill j] sid) = Ok d"
    "signed_try_parse chrono_ms ed25519_plain d = Ok (ConnectionRequest [key_fill j] sid, key_fill i, 5)"
    "ex_waiting j st"
proof -
  let ?st = "ex_two i j sid" and ?m = "ConnectionRequest [key_fill j] sid"
  note sel = ex_two_def ex_quiet_def ex_client_def ex_env_def
  obtain d where d: "signed_to_bytes chrono_ms ed25519_plain 5 (key_fill i) ?m = Ok d"
    by (simp add: signed_to_bytes_def payload_to_bytes_def)
  have t: "from_timestamp_millis chrono_ms (timestamp_millis chrono_ms 5) = Some 5" by (simp add: chrono_ms_def)
  have vk: "verifying_key ed25519_plain (key_fill i) = key_fill i" by (simp add: ed25519_plain_def)
  from signed_message_parses [OF chrono_ms_ok ed25519_plain_ok t d] vk
  have p: "signed_try_parse chrono_ms ed25519_plain d = Ok (?m, key_fill i, 5)" by simp
  have refresh: "refresh_socket False ex_quiet ?st = Ok ?st" by (simp add: refresh_socket_def sel)
  have due: "request_due (pe_now ex_quiet) ?st" by (simp add: request_due_def sel)
  have lst: "new_available_remotes_list (pe_list_now ex_quiet) ?st = ([key_fill j], ?st\<lparr>last_trusted_peer_offset := key_fill j\<rparr>)"
    by (simp add: new_available_remotes_list_def sel bt_range_from_def bt_range_to_def bt_range_above_def
        bt_keys_def is_discovery_enabled_def backoff_defs pubkey_default_def word_le_nat_alt)
  have place: "place_connection_requests chrono_ms ed25519_plain ex_quiet [key_fill j] (?st\<lparr>last_trusted_peer_offset := key_fill j\<rparr>) =
      Ok (?st\<lparr>last_trusted_peer_offset := key_fill j, last_request_tm := Some 0\<rparr>, [(est_socket ex_client, d, SockV4 ex_server)])"
    using d by (simp add: place_connection_requests_def sel)
  have "poll_accept chrono_ms ed25519_plain False ex_quiet ?st = Answered None
      (?st\<lparr>last_trusted_peer_offset := key_fill j, last_request_tm := Some 0\<rparr>) [(est_socket ex_client, d, SockV4 ex_server)]"
    by (simp add: poll_accept_def refresh due lst place receive_phase_def) (simp add: ex_quiet_def)
  from that [OF this d p] show ?thesis by (simp add: ex_waiting_def ex_two_def ex_client_def)
qed

lemma ex_served:
  assumes "signed_to_bytes chrono_ms ed25519_plain 5 (key_fill i) (ConnectionRequest [key_fill j] sid) = Ok d"
    and "handle_request (ex_asks i j sid now) sv = (sv', out)"
  shows "handle_datagram chrono_ms ed25519_plain 5 now (SockV4 (ex_addr i)) d sv =
    Ok (sv', map (\<lambda>(dst, m). (dst, from_server_to_bytes m)) out)"
proof -
  have "from_timestamp_millis chrono_ms (timestamp_millis chrono_ms 5) = Some 5" "\<bar>diff_seconds chrono_ms 5 5\<bar> \<le> 30"
    "verifying_key ed25519_plain (key_fill i) = key_fill i"
    by (simp_all add: chrono_ms_def ed25519_plain_def)
  with request_datagram_handled [OF chrono_ms_ok ed25519_plain_ok assms(1), of 5 5 now "ex_addr i" sv] assms(2)
  show ?thesis by (simp add: ex_asks_def)
qed

lemma ex_two_placed:
  "handle_request (ex_asks 1 2 9 0) udp_state_new =
    (\<lparr>requests = [(key_fill 1, [(key_fill 2, new_pending (ex_asks 1 2 9 0))])], last_session_ids = []\<rparr>, [])"
  by (simp add: handle_request_eq Let_def udp_state_new_def cleanup_def hm_map_values_def hm_retain_def
      lost_session_def pair_of_def hm_insert_def hm_from_iter_def ex_asks_def)

lemma ex_two_matched:
  "snd (handle_request (ex_asks 2 1 11 0) \<lparr>requests = [(key_fill 1, [(key_fill 2, new_pending (ex_asks 1 2 9 0))])], last_session_ids = []\<rparr>) =
    [(ex_addr 1, InitiateConnectionRequest (key_fill 2) (ex_addr 2) 11 False),
     (ex_addr 2, InitiateConnectionRequest (key_fill 1) (ex_addr 1) 9 True)]"
  by (simp add: handle_request_eq Let_def cleanup_def hm_map_values_def hm_retain_def lost_session_def
      pair_of_def hm_get_def is_fresh_def time_simps REQUEST_TIMEOUT_S_def ex_asks_def to_original_def to_new_def new_pending_def)

lemma ex_genuine:
  assumes "(i = 1 \<and> n = 0) \<or> (i = 2 \<and> n = 1)" and "(n, d) \<in> set (sy_datagrams s)"
    and "signed_try_parse chrono_ms ed25519_plain d = Ok (m, key_fill i, t)"
  shows "genuine ex_net s (ex_addr i) d"
  using assms by (auto simp: genuine_def split: if_splits)

lemma ex_serves:
  assumes "sy_server s = sv" and "(i = 1 \<and> n = 0) \<or> (i = 2 \<and> n = 1)" and "(n, d) \<in> set (sy_datagrams s)"
    and "signed_to_bytes chrono_ms ed25519_plain 5 (key_fill i) (ConnectionRequest [key_fill j] sid) = Ok d"
    and "signed_try_parse chrono_ms ed25519_plain d = Ok (ConnectionRequest [key_fill j] sid, key_fill i, 5)"
    and "handle_request (ex_asks i j sid now) sv = (sv', out)"
  shows "net_step ex_net s (s\<lparr>sy_server := sv',
    sy_notices := sy_notices s @ map (\<lambda>(dst, m). (dst, from_server_to_bytes m)) out\<rparr>)"
proof (rule net_step.serve [OF ex_genuine [OF assms(2,3,5)]])
  show "handle_datagram (nw_chrono ex_net) (nw_ed25519 ex_net) 5 now (SockV4 (ex_addr i)) d (sy_server s) =
    Ok (sv', map (\<lambda>(dst, m). (dst, from_server_to_bytes m)) out)"
    using ex_served [OF assms(4,6)] assms(1) by simp
qed

definition ex_sys :: "pubkey establisher \<Rightarrow> pubkey establisher \<Rightarrow> udp_state \<Rightarrow> (nat \<times> bytes) list
    \<Rightarrow> (sockaddr_v4 \<times> bytes) list \<Rightarrow> pubkey udp_system" where
  "ex_sys c\<^sub>0 c\<^sub>1 sv ds ns =
     \<lparr>sy_clients = [0 \<mapsto> c\<^sub>0, 1 \<mapsto> c\<^sub>1], sy_server = sv, sy_datagrams = ds, sy_notices = ns\<rparr>"

lemma ex_sys_sel [simp]:
  "sy_clients (ex_sys c\<^sub>0 c\<^sub>1 sv ds ns) = [0 \<mapsto> c\<^sub>0, 1 \<mapsto> c\<^sub>1]" "sy_server (ex_sys c\<^sub>0 c\<^sub>1 sv ds ns) = sv"
  "sy_datagrams (ex_sys c\<^sub>0 c\<^sub>1 sv ds ns) = ds" "sy_notices (ex_sys c\<^sub>0 c\<^sub>1 sv ds ns) = ns"
  by (simp_all add: ex_sys_def)

definition ex_asked :: "u8 \<Rightarrow> u8 \<Rightarrow> u32 \<Rightarrow> bytes \<Rightarrow> bool" where
  "ex_asked i j sid d \<longleftrightarrow> signed_to_bytes chrono_ms ed25519_plain 5 (key_fill i) (ConnectionRequest [key_fill j] sid) = Ok d
     \<and> signed_try_parse chrono_ms ed25519_plain d = Ok (ConnectionRequest [key_fill j] sid, key_fill i, 5)"

text \<open>Both poll.\<close>

lemma ex_net_polled:
  obtains c\<^sub>0 c\<^sub>1 d\<^sub>0 d\<^sub>1 where "net_reachable ex_net (ex_sys c\<^sub>0 c\<^sub>1 udp_state_new [(0, d\<^sub>0), (1, d\<^sub>1)] [])"
    "ex_waiting 2 c\<^sub>0" "ex_asked 1 2 9 d\<^sub>0" "ex_asked 2 1 11 d\<^sub>1"
proof -
  obtain d\<^sub>0 c\<^sub>0 where c0: "poll_accept chrono_ms ed25519_plain False ex_quiet (ex_two 1 2 9) =
      Answered None c\<^sub>0 [(est_socket ex_client, d\<^sub>0, SockV4 ex_server)]" "ex_waiting 2 c\<^sub>0" and d0: "ex_asked 1 2 9 d\<^sub>0"
    using ex_two_polls [of 1 2 9] unfolding ex_asked_def by metis
  obtain d\<^sub>1 c\<^sub>1 where c1: "poll_accept chrono_ms ed25519_plain False ex_quiet (ex_two 2 1 11) =
      Answered None c\<^sub>1 [(est_socket ex_client, d\<^sub>1, SockV4 ex_server)]" and d1: "ex_asked 2 1 11 d\<^sub>1"
    using ex_two_polls [of 2 1 11] unfolding ex_asked_def by metis
  have hear: "delivered ex_net s n st ex_quiet" for s n st by (simp add: delivered_def ex_quiet_def)
  let ?s0 = "ex_sys (ex_two 1 2 9) (ex_two 2 1 11) udp_state_new [] []"
    and ?s1 = "ex_sys c\<^sub>0 (ex_two 2 1 11) udp_state_new [(0, d\<^sub>0)] []"
  have "table_ok (ex_two 1 2 9)" "table_ok (ex_two 2 1 11)"
    by (auto simp: table_ok_def ex_two_def bt_ok_def bt_get_def split: if_splits)
  then have "net_start ex_net ?s0" by (auto simp: net_start_def split: if_splits)
  note net_reachable.start [OF this]
  moreover have "net_step ex_net ?s0 ?s1"
    using net_step.poll [where n = 0 and w = ex_net and env = ex_quiet, OF _ hear, unfolded ex_net_sel, OF _ c0(1), of ?s0]
    by (simp add: fun_upd_twist ex_sys_def)
  ultimately have "net_reachable ex_net ?s1" by (rule net_reachable.step)
  moreover have "net_step ex_net ?s1 (ex_sys c\<^sub>0 c\<^sub>1 udp_state_new [(0, d\<^sub>0), (1, d\<^sub>1)] [])"
    using net_step.poll [where n = 1 and w = ex_net and env = ex_quiet, OF _ hear, unfolded ex_net_sel, OF _ c1, of ?s1]
    by (simp add: ex_sys_def)
  ultimately have "net_reachable ex_net (ex_sys c\<^sub>0 c\<^sub>1 udp_state_new [(0, d\<^sub>0), (1, d\<^sub>1)] [])" by (rule net_reachable.step)
  from that [OF this c0(2) d0 d1] show ?thesis .
qed

lemma ex_sys_serves:
  assumes "(i = 1 \<and> n = 0) \<or> (i = 2 \<and> n = 1)" and "(n, d) \<in> set ds" and "ex_asked i j sid d"
    and "handle_request (ex_asks i j sid now) sv = (sv', out)"
  shows "net_step ex_net (ex_sys c\<^sub>0 c\<^sub>1 sv ds ns)
    (ex_sys c\<^sub>0 c\<^sub>1 sv' ds (ns @ map (\<lambda>(dst, m). (dst, from_server_to_bytes m)) out))"
  using ex_serves [of "ex_sys c\<^sub>0 c\<^sub>1 sv ds ns", OF _ assms(1) _ _ _ assms(4)] assms(2,3)
  by (simp add: ex_asked_def) (simp add: ex_sys_def)

text \<open>The server handles both requests, and the first client is told about the second.\<close>

lemma ex_net_run:
  obtains s st where "net_reachable ex_net s" "sy_clients s 0 = Some st" "ex_waiting 2 st"
    "(ex_addr 1, from_server_to_bytes (InitiateConnectionRequest (key_fill 2) (ex_addr 2) 11 False)) \<in> set (sy_notices s)"
proof -
  let ?sv = "\<lparr>requests = [(key_fill 1, [(key_fill 2, new_pending (ex_asks 1 2 9 0))])], last_session_ids = []\<rparr>"
  from ex_net_polled obtain c\<^sub>0 c\<^sub>1 d\<^sub>0 d\<^sub>1 where
    r: "net_reachable ex_net (ex_sys c\<^sub>0 c\<^sub>1 udp_state_new [(0, d\<^sub>0), (1, d\<^sub>1)] [])"
    and c0: "ex_waiting 2 c\<^sub>0" and d0: "ex_asked 1 2 9 d\<^sub>0" and d1: "ex_asked 2 1 11 d\<^sub>1" .
  obtain sv out where sv: "handle_request (ex_asks 2 1 11 0) ?sv = (sv, out)" by fastforce
  have "net_reachable ex_net (ex_sys c\<^sub>0 c\<^sub>1 ?sv [(0, d\<^sub>0), (1, d\<^sub>1)] [])"
    using net_reachable.step [OF r ex_sys_serves [OF _ _ d0 ex_two_placed]] by simp
  from net_reachable.step [OF this ex_sys_serves [OF _ _ d1 sv]]
  have "net_reachable ex_net (ex_sys c\<^sub>0 c\<^sub>1 sv [(0, d\<^sub>0), (1, d\<^sub>1)] (map (\<lambda>(dst, m). (dst, from_server_to_bytes m)) out))"
    by simp
  moreover have "out = [(ex_addr 1, InitiateConnectionRequest (key_fill 2) (ex_addr 2) 11 False),
     (ex_addr 2, InitiateConnectionRequest (key_fill 1) (ex_addr 1) 9 True)]"
    using sv ex_two_matched by simp
  ultimately show ?thesis using that c0 by (auto simp del: from_server_to_bytes.simps)
qed

theorem mutual_consent_witness:
  "\<exists>s st env c st' sent k a b sid packets. net_reachable ex_net s \<and> sy_clients s 0 = Some st
    \<and> poll_accept chrono_ms ed25519_plain False env st = Answered (Some (Ok c)) st' sent
    \<and> nw_keys ex_net 1 = Some (nc_pubkey c) \<and> nw_keys ex_net 0 = Some k
    \<and> asked ex_net s 1 k \<and> asked ex_net s 0 (nc_pubkey c) \<and> nw_owner ex_net a = Some 0 \<and> nw_owner ex_net b = Some 1
    \<and> (b, from_server_to_bytes (InitiateConnectionRequest k a sid (\<not> nc_is_listener c))) \<in> set (sy_notices s)
    \<and> hole_punch (SockV4 b) (pe_punch env) = Some (Ok (nc_remote_addr c), packets)"
proof -
  obtain s st where s: "net_reachable ex_net s" "sy_clients s 0 = Some st" "ex_waiting 2 st"
    "(ex_addr 1, from_server_to_bytes (InitiateConnectionRequest (key_fill 2) (ex_addr 2) 11 False)) \<in> set (sy_notices s)"
    by (rule ex_net_run)
  let ?env = "ex_notified (InitiateConnectionRequest (key_fill 2) (ex_addr 2) 11 False)"
  from s(3) ex_waiting_poll [of st "key_fill 2" "ex_addr 2" 11 False] obtain st' sent c where
    c: "poll_accept chrono_ms ed25519_plain False ?env st = Answered (Some (Ok c)) st' sent" "nc_pubkey c = key_fill 2"
    by (fastforce simp: ex_waiting_def)
  have d: "delivered ex_net s 0 st ?env"
    using s(4) by (auto simp: delivered_def ex_notified_def simp del: from_server_to_bytes.simps)
  have m: "nw_keys ex_net 1 = Some (nc_pubkey c)" by (simp add: c)
  from mutual_consent [OF s(1,2) d, unfolded ex_net_sel, OF c(1) m [unfolded ex_net_sel]]
  obtain k a b sid packets where "nw_keys ex_net 0 = Some k" "asked ex_net s 1 k" "asked ex_net s 0 (nc_pubkey c)"
    "nw_owner ex_net a = Some 0" "nw_owner ex_net b = Some 1"
    "(b, from_server_to_bytes (InitiateConnectionRequest k a sid (\<not> nc_is_listener c))) \<in> set (sy_notices s)"
    "hole_punch (SockV4 b) (pe_punch ?env) = Some (Ok (nc_remote_addr c), packets)"
    unfolding ex_net_sel by blast
  then show ?thesis using s(1,2) c(1) m by blast
qed

end
