(* ===== verification/Udp_Quic.thy ===== *)
theory Udp_Quic
  imports Udp_Client
begin

text \<open>
  \<open>src/udp/quic.rs\<close> and \<open>UdpQuicConnectionEstablisher\<close> (\<open>src/udp/client.rs\<close>): the QUIC
  connection on top of a punched hole, and the certificate check that ties it to the trusted
  peer. The crates \<open>rcgen\<close>, \<open>x509_parser\<close>, \<open>rustls\<close> and \<open>quinn\<close> are a parameter.
\<close>

subsection \<open>The crates\<close>

text \<open>
  For key pairs of type \<open>'kp\<close>, connection attempts of type \<open>'att\<close> and connections of type
  \<open>'con\<close>: the PKCS 8 encoding of a signing key, the key pair and self-signed certificate made
  of it, the public key inside a certificate, whether the TLS configurations and the endpoint
  can be built, an incoming and an outgoing attempt, the connection each becomes under the
  checks of its configuration (and, for an incoming one, whether the peer must present a
  certificate), and of a connection its peer's certificate, the signed transcript and the
  signature on it. The \<open>ring_\<close> fields are the signature algorithms of the \<open>ring\<close> provider.
\<close>

record digitally_signed_struct =
  dss_scheme :: u16
  dss_signature :: bytes

record tls_checks =
  tc_cert :: "bytes \<Rightarrow> bool"
  tc_tls12 :: "bytes \<Rightarrow> bytes \<Rightarrow> digitally_signed_struct \<Rightarrow> bool"
  tc_tls13 :: "bytes \<Rightarrow> bytes \<Rightarrow> digitally_signed_struct \<Rightarrow> bool"
  tc_schemes :: "u16 list"

record ('sk, 'kp, 'att, 'con) quic_lib =
  to_pkcs8_der :: "'sk \<Rightarrow> bytes option"
  from_pkcs8_der :: "bytes \<Rightarrow> 'kp option"
  params_ok :: "string list \<Rightarrow> bool"
  self_signed :: "string list \<Rightarrow> 'kp \<Rightarrow> bytes option"
  x509_public_key :: "bytes \<Rightarrow> bytes option"
  server_tls_ok :: "bytes \<Rightarrow> bytes \<Rightarrow> bool"
  client_tls_ok :: "bytes \<Rightarrow> bytes \<Rightarrow> bool"
  endpoint_ok :: "udp_socket \<Rightarrow> bool"
  ep_accept :: "udp_socket \<Rightarrow> 'att option"
  ep_connect :: "udp_socket \<Rightarrow> socket_addr \<Rightarrow> string \<Rightarrow> 'att option"
  finish_connect :: "'att \<Rightarrow> tls_checks \<Rightarrow> 'con option"
  finish_accept :: "'att \<Rightarrow> bool \<Rightarrow> tls_checks \<Rightarrow> 'con option"
  peer_cert :: "'con \<Rightarrow> bytes"
  transcript :: "'con \<Rightarrow> bytes"
  peer_dss :: "'con \<Rightarrow> digitally_signed_struct"
  ring_tls12 :: "bytes \<Rightarrow> bytes \<Rightarrow> digitally_signed_struct \<Rightarrow> bool"
  ring_tls13 :: "bytes \<Rightarrow> bytes \<Rightarrow> digitally_signed_struct \<Rightarrow> bool"
  ring_schemes :: "u16 list"

text \<open>What the code relies on (QUIC uses TLS 1.3): an outgoing handshake ends in a connection only
  if the configured checks accepted the peer's certificate and its signature, of an offered
  scheme, on the transcript; so does an incoming one that requires a certificate.\<close>

definition handshake_checked :: "('sk, 'kp, 'att, 'con) quic_lib \<Rightarrow> tls_checks \<Rightarrow> 'con \<Rightarrow> bool" where
  "handshake_checked lib checks con \<longleftrightarrow> tc_cert checks (peer_cert lib con)
     \<and> dss_scheme (peer_dss lib con) \<in> set (tc_schemes checks)
     \<and> tc_tls13 checks (transcript lib con) (peer_cert lib con) (peer_dss lib con)"

definition quic_lib_ok :: "('sk, 'kp, 'att, 'con) quic_lib \<Rightarrow> bool" where
  "quic_lib_ok lib \<longleftrightarrow>
     (\<forall>att checks con. finish_connect lib att checks = Some con \<longrightarrow> handshake_checked lib checks con)
   \<and> (\<forall>att checks con. finish_accept lib att True checks = Some con \<longrightarrow> handshake_checked lib checks con)"

subsection \<open>Certificates\<close>

datatype quic_error =
    KeyEncoding
  | CertificateError
  | InvalidPublicKey
  | TlsConfig
  | EndpointError
  | NoIncoming
  | ConnectFailed
  | HandshakeFailed
  | ServerContext quic_error
  | ClientContext quic_error

definition quinn_cert_from_key ::
  "('sk, 'kp, 'att, 'con) quic_lib \<Rightarrow> 'sk \<Rightarrow> (bytes \<times> bytes, quic_error) res" where
  "quinn_cert_from_key lib signing_key =
    bind_res (ok_or (to_pkcs8_der lib signing_key) KeyEncoding) (\<lambda>pkcs8.
    bind_res (ok_or (from_pkcs8_der lib pkcs8) KeyEncoding) (\<lambda>keypair.
    if \<not> params_ok lib [''reprise-p2p''] then Err CertificateError else
    bind_res (ok_or (self_signed lib [''reprise-p2p''] keypair) CertificateError) (\<lambda>cert.
    Ok (cert, pkcs8))))"

datatype rustls_error = General string

text \<open>
  \<open>PeerPublicKeyVerifier\<close>: \<open>verify_server_cert\<close> and \<open>verify_client_cert\<close>, which run on the end
  that connects and on the end that accepts.
\<close>

record peer_public_key_verifier =
  expected_pubkey :: pubkey

definition verify_server_cert ::
  "('sk, 'kp, 'att, 'con) quic_lib \<Rightarrow> peer_public_key_verifier \<Rightarrow> bytes \<Rightarrow> (unit, rustls_error) res" where
  "verify_server_cert lib v end_entity =
    bind_res (ok_or (x509_public_key lib end_entity) (General ''Failed to parse X.509 cert'')) (\<lambda>peer_pubkey_bytes.
    if peer_pubkey_bytes \<noteq> key_bytes (expected_pubkey v) then Err (General ''Peer public key mismatch!'')
    else Ok ())"

definition verify_client_cert ::
  "('sk, 'kp, 'att, 'con) quic_lib \<Rightarrow> peer_public_key_verifier \<Rightarrow> bytes \<Rightarrow> (unit, rustls_error) res" where
  "verify_client_cert lib v end_entity =
    bind_res (ok_or (x509_public_key lib end_entity) (General ''Failed to parse X.509 cert'')) (\<lambda>peer_pubkey_bytes.
    if peer_pubkey_bytes \<noteq> key_bytes (expected_pubkey v) then Err (General ''Peer public key mismatch!'')
    else Ok ())"

text \<open>
  The two trait implementations. Handshake signatures go to the \<open>ring\<close> provider. A certificate is
  required of a connecting peer whenever client authentication is offered (the trait's default).
\<close>

definition server_cert_verifier ::
  "('sk, 'kp, 'att, 'con) quic_lib \<Rightarrow> peer_public_key_verifier \<Rightarrow> tls_checks" where
  "server_cert_verifier lib v =
    \<lparr>tc_cert = (\<lambda>end_entity. verify_server_cert lib v end_entity = Ok ()),
     tc_tls12 = (\<lambda>message cert dss. ring_tls12 lib message cert dss),
     tc_tls13 = (\<lambda>message cert dss. ring_tls13 lib message cert dss),
     tc_schemes = ring_schemes lib\<rparr>"

definition offer_client_auth :: "peer_public_key_verifier \<Rightarrow> bool" where
  "offer_client_auth v = True"

definition root_hint_subjects :: "peer_public_key_verifier \<Rightarrow> bytes list" where
  "root_hint_subjects v = []"

definition client_cert_verifier ::
  "('sk, 'kp, 'att, 'con) quic_lib \<Rightarrow> peer_public_key_verifier \<Rightarrow> tls_checks" where
  "client_cert_verifier lib v =
    \<lparr>tc_cert = (\<lambda>end_entity. verify_client_cert lib v end_entity = Ok ()),
     tc_tls12 = (\<lambda>message cert dss. ring_tls12 lib message cert dss),
     tc_tls13 = (\<lambda>message cert dss. ring_tls13 lib message cert dss),
     tc_schemes = ring_schemes lib\<rparr>"

subsection \<open>Endpoints\<close>

text \<open>An endpoint with the check of its server configuration.\<close>

record quic_endpoint =
  qe_socket :: udp_socket
  qe_cert :: bytes
  qe_key :: bytes
  qe_verifier :: peer_public_key_verifier

definition make_quin_endpoint ::
  "('sk, 'kp, 'att, 'con) quic_lib \<Rightarrow> 'sk ed25519 \<Rightarrow> 'sk \<Rightarrow> udp_socket \<Rightarrow> pubkey \<Rightarrow> (quic_endpoint, quic_error) res" where
  "make_quin_endpoint lib ed signing_key socket expected =
    bind_res (quinn_cert_from_key lib signing_key) (\<lambda>(cert, key).
    if \<not> key_valid ed expected then Err InvalidPublicKey
    else if \<not> server_tls_ok lib cert key then Err TlsConfig
    else if \<not> endpoint_ok lib socket then Err EndpointError
    else Ok \<lparr>qe_socket = socket, qe_cert = cert, qe_key = key, qe_verifier = \<lparr>expected_pubkey = expected\<rparr>\<rparr>)"

definition establish_client_quic_connection ::
  "('sk, 'kp, 'att, 'con) quic_lib \<Rightarrow> quic_endpoint \<Rightarrow> ('con, quic_error) res" where
  "establish_client_quic_connection lib ep =
    bind_res (ok_or (ep_accept lib (qe_socket ep)) NoIncoming) (\<lambda>incoming.
    ok_or (finish_accept lib incoming (offer_client_auth (qe_verifier ep))
      (client_cert_verifier lib (qe_verifier ep))) HandshakeFailed)"

definition establish_server_quic_connection ::
  "('sk, 'kp, 'att, 'con) quic_lib \<Rightarrow> 'sk ed25519 \<Rightarrow> 'sk \<Rightarrow> quic_endpoint \<Rightarrow> socket_addr \<Rightarrow> pubkey \<Rightarrow>
   ('con, quic_error) res" where
  "establish_server_quic_connection lib ed signing_key ep remote_addr remote_pubkey =
    (if \<not> key_valid ed remote_pubkey then Err InvalidPublicKey else
     let verifier = \<lparr>expected_pubkey = remote_pubkey\<rparr> in
     bind_res (quinn_cert_from_key lib signing_key) (\<lambda>(cert, key).
     if \<not> client_tls_ok lib cert key then Err TlsConfig else
     bind_res (ok_or (ep_connect lib (qe_socket ep) remote_addr ''reprise-p2p'') ConnectFailed) (\<lambda>connecting.
     ok_or (finish_connect lib connecting (server_cert_verifier lib verifier)) HandshakeFailed)))"

subsection \<open>The establisher\<close>

record 'sk quic_establisher =
  inner :: "'sk establisher"
  signing_key :: 'sk

definition quic_establisher_new ::
  "bool \<Rightarrow> i64 \<Rightarrow> http_outcome \<Rightarrow> bool \<Rightarrow> os_bind \<Rightarrow> interface list \<Rightarrow> interface list \<Rightarrow> u32 \<Rightarrow> 'sk \<Rightarrow>
   sockaddr_v4 \<Rightarrow> ('sk quic_establisher, unit) res" where
  "quic_establisher_new checks system_time outcome windows os ifs ifs' sid key server_addr =
    bind_res (establisher_new checks system_time outcome windows os ifs ifs' sid key server_addr) (\<lambda>est.
    Ok \<lparr>inner = est, signing_key = key\<rparr>)"

definition quic_add_trusted_remote :: "pubkey \<Rightarrow> 'sk quic_establisher \<Rightarrow> 'sk quic_establisher" where
  "quic_add_trusted_remote k q = q\<lparr>inner := add_trusted_remote k (inner q)\<rparr>"

definition quic_remove_trusted_remote :: "pubkey \<Rightarrow> 'sk quic_establisher \<Rightarrow> 'sk quic_establisher" where
  "quic_remove_trusted_remote k q = q\<lparr>inner := remove_trusted_remote k (inner q)\<rparr>"

definition quic_set_trusted_remote_list :: "pubkey list \<Rightarrow> 'sk quic_establisher \<Rightarrow> 'sk quic_establisher" where
  "quic_set_trusted_remote_list ks q = q\<lparr>inner := set_trusted_remote_list ks (inner q)\<rparr>"

definition quic_on_connection_closed :: "pubkey \<Rightarrow> 'sk quic_establisher \<Rightarrow> 'sk quic_establisher" where
  "quic_on_connection_closed k q = q\<lparr>inner := on_connection_closed k (inner q)\<rparr>"

record 'con quic_connection =
  qc_connection :: 'con
  qc_remote_pubkey :: pubkey
  qc_remote_addr :: socket_addr

datatype quic_poll_error = InnerError client_error | QuicFailed quic_error

datatype ('sk, 'con) quic_outcome =
    QWaiting
  | QPanicked
  | QAnswered (qo_answer: "('con quic_connection, quic_poll_error) res option")
      (qo_state: "'sk quic_establisher")

text \<open>\<open>into_std\<close> says whether the socket could be handed over (\<open>into_std().unwrap()\<close>).\<close>

definition quic_poll_accept ::
  "('sk, 'kp, 'att, 'con) quic_lib \<Rightarrow> (udp_socket \<Rightarrow> udp_socket option) \<Rightarrow>
   'dt chrono \<Rightarrow> 'sk ed25519 \<Rightarrow> bool \<Rightarrow> 'dt poll_env \<Rightarrow> 'sk quic_establisher \<Rightarrow> ('sk, 'con) quic_outcome" where
  "quic_poll_accept lib into_std ch ed windows env q =
    (case poll_accept ch ed windows env (inner q) of
       Waiting \<Rightarrow> QWaiting
     | Panicked \<Rightarrow> QPanicked
     | Answered r st _ \<Rightarrow>
         (case r of
            None \<Rightarrow> QAnswered None (q\<lparr>inner := st\<rparr>)
          | Some Panic \<Rightarrow> QPanicked
          | Some (Err e) \<Rightarrow> QAnswered (Some (Err (InnerError e))) (q\<lparr>inner := st\<rparr>)
          | Some (Ok conn) \<Rightarrow>
              (let remote_addr = nc_remote_addr conn;
                   remote_pubkey = nc_pubkey conn
               in case into_std (nc_socket conn) of
                    None \<Rightarrow> QPanicked
                  | Some socket \<Rightarrow>
                      (case make_quin_endpoint lib ed (signing_key q) socket remote_pubkey of
                         Panic \<Rightarrow> QPanicked
                       | Err e \<Rightarrow> QAnswered (Some (Err (QuicFailed e)))
                                   (q\<lparr>inner := on_connection_closed remote_pubkey st\<rparr>)
                       | Ok ep \<Rightarrow>
                           (case (if nc_is_listener conn
                                  then establish_server_quic_connection lib ed (signing_key q) ep remote_addr remote_pubkey
                                  else establish_client_quic_connection lib ep) of
                              Ok quic_connection \<Rightarrow>
                                QAnswered (Some (Ok \<lparr>qc_connection = quic_connection,
                                    qc_remote_pubkey = remote_pubkey, qc_remote_addr = remote_addr\<rparr>))
                                  (q\<lparr>inner := st\<rparr>)
                            | Err e \<Rightarrow>
                                QAnswered (Some (Err (QuicFailed
                                    (if nc_is_listener conn then ServerContext e else ClientContext e))))
                                  (q\<lparr>inner := on_connection_closed remote_pubkey st\<rparr>)
                            | Panic \<Rightarrow> QPanicked)))))"

subsection \<open>What the checks ensure\<close>

lemma cert_checks:
  "verify_server_cert lib v cert = Ok () \<longleftrightarrow> x509_public_key lib cert = Some (key_bytes (expected_pubkey v))"
  "verify_client_cert lib v cert = Ok () \<longleftrightarrow> x509_public_key lib cert = Some (key_bytes (expected_pubkey v))"
  by (auto simp: verify_server_cert_def verify_client_cert_def)

lemma quinn_cert_not_Panic [simp]: "quinn_cert_from_key lib key \<noteq> Panic"
  by (auto simp: quinn_cert_from_key_def bind_res_eq_Panic)

lemma make_quin_endpoint_not_Panic [simp]: "make_quin_endpoint lib ed key socket expected \<noteq> Panic"
  by (auto simp: make_quin_endpoint_def bind_res_eq_Panic)

lemma make_quin_endpoint_verifier:
  "make_quin_endpoint lib ed key socket expected = Ok ep \<Longrightarrow> expected_pubkey (qe_verifier ep) = expected"
  by (auto simp: make_quin_endpoint_def split: if_splits)

lemma establish_client_not_Panic [simp]: "establish_client_quic_connection lib ep \<noteq> Panic"
  by (auto simp: establish_client_quic_connection_def bind_res_eq_Panic)

lemma establish_server_not_Panic [simp]: "establish_server_quic_connection lib ed key ep addr k \<noteq> Panic"
  by (auto simp: establish_server_quic_connection_def bind_res_eq_Panic)

text \<open>The peer of a connection holds key \<open>k\<close>: its certificate has that public key and its signature
  on the handshake verifies under the certificate.\<close>

definition peer_proved :: "('sk, 'kp, 'att, 'con) quic_lib \<Rightarrow> pubkey \<Rightarrow> 'con \<Rightarrow> bool" where
  "peer_proved lib k con \<longleftrightarrow> x509_public_key lib (peer_cert lib con) = Some (key_bytes k)
     \<and> ring_tls13 lib (transcript lib con) (peer_cert lib con) (peer_dss lib con)"

lemma handshake_checked_proved:
  "handshake_checked lib (server_cert_verifier lib v) con \<Longrightarrow> peer_proved lib (expected_pubkey v) con"
  "handshake_checked lib (client_cert_verifier lib v) con \<Longrightarrow> peer_proved lib (expected_pubkey v) con"
  by (simp_all add: handshake_checked_def peer_proved_def server_cert_verifier_def client_cert_verifier_def
      cert_checks)

lemma establish_client_peer:
  assumes "quic_lib_ok lib" and "establish_client_quic_connection lib ep = Ok con"
  shows "peer_proved lib (expected_pubkey (qe_verifier ep)) con"
  using assms
  by (auto simp: establish_client_quic_connection_def quic_lib_ok_def offer_client_auth_def
      intro!: handshake_checked_proved)

lemma establish_server_peer:
  assumes "quic_lib_ok lib" and "establish_server_quic_connection lib ed key ep addr k = Ok con"
  shows "peer_proved lib k con"
proof -
  from assms(2) obtain att where "finish_connect lib att (server_cert_verifier lib \<lparr>expected_pubkey = k\<rparr>) = Some con"
    by (auto simp: establish_server_quic_connection_def Let_def split: if_splits)
  with assms(1) have "handshake_checked lib (server_cert_verifier lib \<lparr>expected_pubkey = k\<rparr>) con"
    by (simp add: quic_lib_ok_def)
  from handshake_checked_proved(1) [OF this] show ?thesis by simp
qed

text \<open>The second half of a call, once the hole is punched.\<close>

lemma quic_poll_punched:
  assumes "quic_poll_accept lib into_std ch ed windows env q = QAnswered r q'"
    and "poll_accept ch ed windows env (inner q) = Answered (Some (Ok conn)) st sent"
  obtains (failed) "inner q' = on_connection_closed (nc_pubkey conn) st" "\<And>c. r \<noteq> Some (Ok c)"
  | (connected) socket ep con where "make_quin_endpoint lib ed (signing_key q) socket (nc_pubkey conn) = Ok ep"
      "(if nc_is_listener conn
        then establish_server_quic_connection lib ed (signing_key q) ep (nc_remote_addr conn) (nc_pubkey conn)
        else establish_client_quic_connection lib ep) = Ok con"
      "r = Some (Ok \<lparr>qc_connection = con, qc_remote_pubkey = nc_pubkey conn, qc_remote_addr = nc_remote_addr conn\<rparr>)"
      "inner q' = st"
proof -
  note u = assms(1) [unfolded quic_poll_accept_def assms(2) poll_outcome.case option.case res.case Let_def]
  from u obtain socket where s: "into_std (nc_socket conn) = Some socket"
    by (cases "into_std (nc_socket conn)") auto
  note u = u [unfolded s option.case]
  show ?thesis
  proof (cases "make_quin_endpoint lib ed (signing_key q) socket (nc_pubkey conn)")
    case (Ok ep)
    let ?e = "if nc_is_listener conn
      then establish_server_quic_connection lib ed (signing_key q) ep (nc_remote_addr conn) (nc_pubkey conn)
      else establish_client_quic_connection lib ep"
    note u = u [unfolded Ok res.case]
    show ?thesis
    proof (cases ?e)
      case con: (Ok con)
      from u [unfolded con res.case] Ok con show ?thesis by (intro connected) auto
    next
      case (Err e)
      from u [unfolded Err res.case] show ?thesis by (intro failed) auto
    qed (use u in simp)
  qed (use u in \<open>auto intro: failed\<close>)
qed

text \<open>
  A call that returns has passed on what the inner call returned, or has made a QUIC
  connection of the punched hole, or has failed to and reported the peer closed.
\<close>

lemma quic_poll_cases:
  assumes "quic_poll_accept lib into_std ch ed windows env q = QAnswered r q'"
  obtains (passed) r0 st sent where "poll_accept ch ed windows env (inner q) = Answered r0 st sent"
      "\<And>c. r0 \<noteq> Some (Ok c)" "inner q' = st" "\<And>c. r \<noteq> Some (Ok c)"
  | (failed) conn st sent where "poll_accept ch ed windows env (inner q) = Answered (Some (Ok conn)) st sent"
      "inner q' = on_connection_closed (nc_pubkey conn) st" "\<And>c. r \<noteq> Some (Ok c)"
  | (connected) conn st sent socket ep con
    where "poll_accept ch ed windows env (inner q) = Answered (Some (Ok conn)) st sent"
      "make_quin_endpoint lib ed (signing_key q) socket (nc_pubkey conn) = Ok ep"
      "(if nc_is_listener conn
        then establish_server_quic_connection lib ed (signing_key q) ep (nc_remote_addr conn) (nc_pubkey conn)
        else establish_client_quic_connection lib ep) = Ok con"
      "r = Some (Ok \<lparr>qc_connection = con, qc_remote_pubkey = nc_pubkey conn, qc_remote_addr = nc_remote_addr conn\<rparr>)"
      "inner q' = st"
proof (cases "poll_accept ch ed windows env (inner q)")
  case (Answered r0 st sent)
  show ?thesis
  proof (cases "\<exists>conn. r0 = Some (Ok conn)")
    case False
    with assms Answered have "inner q' = st \<and> (\<forall>c. r \<noteq> Some (Ok c))"
      by (auto simp: quic_poll_accept_def split: option.splits res.splits)
    with False Answered show ?thesis using passed by blast
  next
    case True
    then obtain conn where poll: "poll_accept ch ed windows env (inner q) = Answered (Some (Ok conn)) st sent"
      using Answered by blast
    from assms poll show ?thesis
    proof (cases rule: quic_poll_punched)
      case failed': failed
      from poll failed' show ?thesis by (rule failed)
    next
      case connected': (connected socket ep con)
      from poll connected' show ?thesis by (rule connected)
    qed
  qed
qed (use assms in \<open>simp_all add: quic_poll_accept_def\<close>)

lemma active_poll:
  assumes "poll_accept ch ed windows env st = Answered r st' sent" and "table_ok st"
  shows "active k st' \<longleftrightarrow> active k st \<or> (\<exists>c. r = Some (Ok c) \<and> nc_pubkey c = k)"
  using assms
proof (cases rule: poll_accept_effect)
  case quiet
  then show ?thesis by (auto simp: active_def idle_answer_def)
next
  case (tried j p a rid l out punches reqs sock)
  have "\<not> active j st" using tried(1) by (auto simp: active_def punched_def is_discovery_enabled_def)
  moreover have "state_kind (punch_entry env j rid p out) = ConnectionActive \<longleftrightarrow> (\<exists>dst. out = Ok dst)"
    by (cases out) (auto simp: punch_entry_def punch_succeeded_def punch_failed_def Let_def)
  moreover have "(\<exists>c. r = Some (Ok c) \<and> nc_pubkey c = k) \<longleftrightarrow> j = k \<and> (\<exists>dst. out = Ok dst)"
    using tried(2) by (cases out) (auto simp: punch_answer_def)
  ultimately show ?thesis
    using tried(3) table_okD(1) [OF assms(2)] by (auto simp: active_def)
qed

lemma active_closed:
  "table_ok st \<Longrightarrow> active k (on_connection_closed j st) \<longleftrightarrow> active k st \<and> k \<noteq> j"
  using get_on_connection_closed [OF table_okD(1), of st j k] by (auto simp: active_def)

lemma quic_poll_proved:
  assumes "quic_lib_ok lib" and "table_ok (inner q)"
    and "quic_poll_accept lib into_std ch ed windows env q = QAnswered (Some (Ok c)) q'"
  shows "peer_proved lib (qc_remote_pubkey c) (qc_connection c)
    \<and> enabled_at (pe_msg_now env) (trusted_remotes (inner q)) (qc_remote_pubkey c)
    \<and> active (qc_remote_pubkey c) (inner q')"
  using assms(3)
proof (cases rule: quic_poll_cases)
  case (connected conn st sent socket ep con)
  have "peer_proved lib (nc_pubkey conn) con"
    using connected(3) establish_server_peer [OF assms(1)]
      establish_client_peer [OF assms(1), of ep, unfolded make_quin_endpoint_verifier [OF connected(2)]]
    by (auto split: if_splits)
  moreover have "enabled_at (pe_msg_now env) (trusted_remotes (inner q)) (nc_pubkey conn)"
    using connected(1) assms(2)
  proof (cases rule: poll_accept_effect)
    case (tried k p a rid l out punches reqs sock)
    then show ?thesis by (cases out) (auto simp: punched_def enabled_at_def punch_answer_def)
  qed simp
  moreover have "active (nc_pubkey conn) st"
    using connected(1) assms(2) by (rule poll_connection_active)
  ultimately show ?thesis using connected(4,5) by simp
qed auto

subsection \<open>An example\<close>

text \<open>Crates in which a certificate is its public key and every peer presents key 2.\<close>

definition ex_dss :: digitally_signed_struct where
  "ex_dss = \<lparr>dss_scheme = 2055, dss_signature = [1]\<rparr>"

definition ex_lib :: "(pubkey, bytes, bytes, bytes) quic_lib" where
  "ex_lib = \<lparr>to_pkcs8_der = (\<lambda>sk. Some (key_bytes sk)), from_pkcs8_der = Some, params_ok = (\<lambda>_. True),
     self_signed = (\<lambda>_ kp. Some kp), x509_public_key = Some, server_tls_ok = (\<lambda>_ _. True),
     client_tls_ok = (\<lambda>_ _. True), endpoint_ok = (\<lambda>_. True),
     ep_accept = (\<lambda>_. Some (replicate 32 2)), ep_connect = (\<lambda>_ _ _. Some (replicate 32 2)),
     finish_connect = (\<lambda>att checks. if tc_cert checks att \<and> tc_tls13 checks [] att ex_dss \<and> 2055 \<in> set (tc_schemes checks)
       then Some att else None),
     finish_accept = (\<lambda>att required checks. None),
     peer_cert = (\<lambda>con. con), transcript = (\<lambda>_. []), peer_dss = (\<lambda>_. ex_dss),
     ring_tls12 = (\<lambda>_ _ _. False), ring_tls13 = (\<lambda>_ _ dss. dss_signature dss = [1]), ring_schemes = [2055]\<rparr>"

definition ex_quic :: "pubkey quic_establisher" where
  "ex_quic = \<lparr>inner = ex_client, signing_key = key_fill 1\<rparr>"

definition ex_quic_connection :: "bytes quic_connection" where
  "ex_quic_connection = \<lparr>qc_connection = replicate 32 2, qc_remote_pubkey = key_fill 2, qc_remote_addr = ex_peer 8\<rparr>"

lemma ex_lib_ok [simp]: "quic_lib_ok ex_lib"
  by (simp add: quic_lib_ok_def ex_lib_def handshake_checked_def ex_dss_def)

lemma ex_quic_ok [simp]: "table_ok (inner ex_quic)"
  by (simp add: ex_quic_def)

lemma ex_quic_poll: "quic_poll_accept ex_lib Some chrono_ms ed25519_plain False ex_env ex_quic =
    QAnswered (Some (Ok ex_quic_connection)) (ex_quic\<lparr>inner := ex_connected\<rparr>)"
proof -
  have k: "nc_pubkey ex_connection = key_fill 2" "nc_is_listener ex_connection" "nc_remote_addr ex_connection = ex_peer 8"
    by (simp_all add: ex_connection_def)
  have cert: "quinn_cert_from_key ex_lib (signing_key ex_quic) = Ok (key_bytes (key_fill 1), key_bytes (key_fill 1))"
    by (simp add: quinn_cert_from_key_def ex_lib_def ex_quic_def)
  obtain ep where ep: "make_quin_endpoint ex_lib ed25519_plain (signing_key ex_quic) (nc_socket ex_connection) (key_fill 2) = Ok ep"
    by (simp add: make_quin_endpoint_def cert) (simp add: ed25519_plain_def ex_lib_def)
  have con: "establish_server_quic_connection ex_lib ed25519_plain (signing_key ex_quic) ep (ex_peer 8) (key_fill 2)
      = Ok (replicate 32 2)"
    by (simp add: establish_server_quic_connection_def cert cert_checks Let_def server_cert_verifier_def)
      (simp add: ed25519_plain_def ex_lib_def ex_dss_def)
  have i: "inner ex_quic = ex_client" by (simp add: ex_quic_def)
  show ?thesis by (simp add: quic_poll_accept_def i ex_poll k ep con Let_def ex_quic_connection_def)
qed

subsection \<open>Properties\<close>

text \<open>C12: A QUIC connection is returned only if the peer presented a certificate with the public key of
  the trusted peer it is returned for and signed the handshake under it, in either role; that
  peer was trusted and not yet connected.\<close>

theorem quic_connection_authentic:
  assumes "quic_lib_ok lib" and "table_ok (inner q)"
    and "quic_poll_accept lib into_std ch ed windows env q = QAnswered (Some (Ok c)) q'"
  shows "x509_public_key lib (peer_cert lib (qc_connection c)) = Some (key_bytes (qc_remote_pubkey c))
    \<and> ring_tls13 lib (transcript lib (qc_connection c)) (peer_cert lib (qc_connection c)) (peer_dss lib (qc_connection c))
    \<and> enabled_at (pe_msg_now env) (trusted_remotes (inner q)) (qc_remote_pubkey c)
    \<and> active (qc_remote_pubkey c) (inner q')"
  using quic_poll_proved [OF assms] by (simp add: peer_proved_def)

theorem quic_connection_authentic_witness:
  "x509_public_key ex_lib (peer_cert ex_lib (qc_connection ex_quic_connection)) = Some (key_bytes (qc_remote_pubkey ex_quic_connection))
    \<and> active (key_fill 2) ex_connected"
  using quic_connection_authentic [OF ex_lib_ok ex_quic_ok ex_quic_poll] by (simp add: ex_quic_connection_def)

text \<open>C28: A peer counts as connected exactly while the user holds a connection to it: a call marks a peer
  as connected if and only if it returns a connection to it, so a hole that was punched but
  could not become a QUIC connection leaves its peer available for the next request.\<close>

theorem quic_connected_exactly:
  assumes "table_ok (inner q)" and "quic_poll_accept lib into_std ch ed windows env q = QAnswered r q'"
  shows "active k (inner q') \<longleftrightarrow> active k (inner q) \<or> (\<exists>c. r = Some (Ok c) \<and> qc_remote_pubkey c = k)"
  using assms(2)
proof (cases rule: quic_poll_cases)
  case (passed r0 st sent)
  with active_poll [OF passed(1) assms(1), of k] show ?thesis by auto
next
  case (failed conn st sent)
  have "\<not> active (nc_pubkey conn) (inner q)"
    using failed(1) assms(1)
  proof (cases rule: poll_accept_effect)
    case (tried j p a rid l out punches reqs sock)
    then show ?thesis by (cases out) (auto simp: punched_def active_def punch_answer_def is_discovery_enabled_def)
  qed simp
  with active_poll [OF failed(1) assms(1), of k] failed(2,3) active_closed [OF table_ok_poll [OF failed(1) assms(1)]]
  show ?thesis by auto
next
  case (connected conn st sent socket ep con)
  with active_poll [OF connected(1) assms(1), of k] show ?thesis by auto
qed

theorem quic_connected_exactly_witness:
  "active (key_fill 2) (inner (ex_quic\<lparr>inner := ex_connected\<rparr>)) \<longleftrightarrow> active (key_fill 2) (inner ex_quic)
     \<or> (\<exists>c. Some (Ok ex_quic_connection :: (bytes quic_connection, quic_poll_error) res) = Some (Ok c)
          \<and> qc_remote_pubkey c = key_fill 2)"
  by (rule quic_connected_exactly [OF ex_quic_ok ex_quic_poll])

end
