(* ===== verification/Udp_Chat.thy ===== *)
theory Udp_Chat
  imports Udp_Quic
begin

text \<open>
  The two chat programs, \<open>examples/udp_chat.rs\<close> and \<open>examples/udp_quic_chat.rs\<close>, which differ in
  the establisher they use and in what a chat session sends over. Each asks for one peer's key,
  trusts that peer alone, and runs one session after another. Text is ASCII; the crate \<open>base64\<close>
  is a parameter.
\<close>

subsection \<open>Reading the peer's key\<close>

text \<open>The loop over the lines typed; a line that cannot be read (\<open>None\<close>) is unwrapped.\<close>

fun read_key :: "(string \<Rightarrow> bytes option) \<Rightarrow> string option list \<Rightarrow> (bytes, unit) res option" where
  "read_key decode [] = None"
| "read_key decode (None # inputs) = Some Panic"
| "read_key decode (Some input # inputs) =
     (case decode (trim input) of
        Some k \<Rightarrow> if length k \<noteq> 32 then read_key decode inputs else Some (Ok k)
      | None \<Rightarrow> read_key decode inputs)"

text \<open>The thread that reads lines for the sessions, until a read fails.\<close>

fun stdin_lines :: "string option list \<Rightarrow> string list" where
  "stdin_lines [] = []"
| "stdin_lines (None # inputs) = []"
| "stdin_lines (Some line # inputs) = trim line # stdin_lines inputs"

subsection \<open>A session over UDP\<close>

text \<open>What the \<open>select!\<close> of a session completes with; \<open>ok\<close> says whether the system takes a packet,
  and the source of a datagram is what the session does not look at.\<close>

datatype chat_event =
    Typed string bool
  | StdinClosed
  | Arrived bytes socket_addr
  | ConnectionLost

definition text_bytes :: "string \<Rightarrow> bytes" where
  "text_bytes s = map (\<lambda>c. of_char c) s"

text \<open>\<open>UdpSocket::send\<close> fails on a socket that is not connected.\<close>

definition udp_send :: "bool \<Rightarrow> udp_socket \<Rightarrow> bytes \<Rightarrow> packet option" where
  "udp_send ok socket msg =
    (case so_peer socket of None \<Rightarrow> None | Some peer \<Rightarrow> if ok then Some (socket, msg, peer) else None)"

text \<open>Whether the session is over, the packets it sent and the messages it showed.\<close>

fun run_chat_session :: "udp_socket \<Rightarrow> chat_event list \<Rightarrow> bool \<times> packet list \<times> bytes list" where
  "run_chat_session socket [] = (False, [], [])"
| "run_chat_session socket (Typed msg ok # es) =
     (if msg = ''/exit'' then (True, [], [])
      else (case udp_send ok socket (text_bytes msg) of
              None \<Rightarrow> (True, [], [])
            | Some packet \<Rightarrow> (case run_chat_session socket es of (over, sent, shown) \<Rightarrow> (over, packet # sent, shown))))"
| "run_chat_session socket (StdinClosed # es) = (True, [], [])"
| "run_chat_session socket (Arrived msg src # es) =
     (case run_chat_session socket es of (over, sent, shown) \<Rightarrow> (over, sent, take 2000 msg # shown))"
| "run_chat_session socket (ConnectionLost # es) = (True, [], [])"

subsection \<open>A session over QUIC\<close>

fun run_quic_session :: "chat_event list \<Rightarrow> bool \<times> bytes list \<times> bytes list" where
  "run_quic_session [] = (False, [], [])"
| "run_quic_session (Typed msg ok # es) =
     (if msg = ''/exit'' then (True, [], [])
      else if \<not> ok then (True, [], [])
      else (case run_quic_session es of (over, sent, shown) \<Rightarrow> (over, text_bytes msg # sent, shown)))"
| "run_quic_session (StdinClosed # es) = (True, [], [])"
| "run_quic_session (Arrived msg src # es) =
     (case run_quic_session es of (over, sent, shown) \<Rightarrow> (over, sent, msg # shown))"
| "run_quic_session (ConnectionLost # es) = (True, [], [])"

subsection \<open>The programs\<close>

text \<open>
  The main loops, over what each call of \<open>poll_accept\<close> meets and the events of the session that
  may follow. The value lists the sessions; \<open>None\<close> while a call has not returned.
\<close>

fun chat_loop ::
  "'dt chrono \<Rightarrow> 'sk ed25519 \<Rightarrow> bool \<Rightarrow> pubkey \<Rightarrow> ('dt poll_env \<times> chat_event list) list \<Rightarrow> 'sk establisher \<Rightarrow>
   ('sk establisher \<times> (new_connection \<times> packet list \<times> bytes list) list, unit) res option" where
  "chat_loop ch ed windows peer_key [] client = Some (Ok (client, []))"
| "chat_loop ch ed windows peer_key ((env, es) # rounds) client =
     (case poll_accept ch ed windows env client of
        Waiting \<Rightarrow> None
      | Panicked \<Rightarrow> Some Panic
      | Answered r client _ \<Rightarrow>
          (case r of
             Some (Ok conn) \<Rightarrow>
               (case run_chat_session (nc_socket conn) es of (over, sent, shown) \<Rightarrow>
                  if over
                  then map_option (\<lambda>rest. bind_res rest (\<lambda>(client, sessions). Ok (client, (conn, sent, shown) # sessions)))
                         (chat_loop ch ed windows peer_key rounds (on_connection_closed peer_key client))
                  else Some (Ok (client, [(conn, sent, shown)])))
           | _ \<Rightarrow> chat_loop ch ed windows peer_key rounds client))"

fun quic_chat_loop ::
  "('sk, 'kp, 'att, 'con) quic_lib \<Rightarrow> (udp_socket \<Rightarrow> udp_socket option) \<Rightarrow> 'dt chrono \<Rightarrow> 'sk ed25519 \<Rightarrow> bool \<Rightarrow>
   pubkey \<Rightarrow> ('dt poll_env \<times> chat_event list) list \<Rightarrow> 'sk quic_establisher \<Rightarrow>
   ('sk quic_establisher \<times> ('con quic_connection \<times> bytes list \<times> bytes list) list, unit) res option" where
  "quic_chat_loop lib into_std ch ed windows peer_key [] client = Some (Ok (client, []))"
| "quic_chat_loop lib into_std ch ed windows peer_key ((env, es) # rounds) client =
     (case quic_poll_accept lib into_std ch ed windows env client of
        QWaiting \<Rightarrow> None
      | QPanicked \<Rightarrow> Some Panic
      | QAnswered r client \<Rightarrow>
          (case r of
             Some (Ok conn) \<Rightarrow>
               (case run_quic_session es of (over, sent, shown) \<Rightarrow>
                  if over
                  then map_option (\<lambda>rest. bind_res rest (\<lambda>(client, sessions). Ok (client, (conn, sent, shown) # sessions)))
                         (quic_chat_loop lib into_std ch ed windows peer_key rounds
                            (quic_on_connection_closed peer_key client))
                  else Some (Ok (client, [(conn, sent, shown)])))
           | _ \<Rightarrow> quic_chat_loop lib into_std ch ed windows peer_key rounds client))"

definition chat_server_addr :: sockaddr_v4 where
  "chat_server_addr = sock4 (Ipv4 155 212 168 136) 47002"

text \<open>\<open>new\<close> is the constructor with everything it reads, up to the server's address.\<close>

definition chat_start ::
  "(string \<Rightarrow> bytes option) \<Rightarrow> string option list \<Rightarrow> (sockaddr_v4 \<Rightarrow> ('sk establisher, unit) res) \<Rightarrow>
   (pubkey \<times> 'sk establisher, unit) res option" where
  "chat_start decode inputs new =
    map_option (\<lambda>k. bind_res k (\<lambda>k. bind_res (unwrap_pubkey k) (\<lambda>peer_key.
        bind_res (new chat_server_addr) (\<lambda>client. Ok (peer_key, add_trusted_remote peer_key client)))))
      (read_key decode inputs)"

definition quic_chat_start ::
  "(string \<Rightarrow> bytes option) \<Rightarrow> string option list \<Rightarrow> (sockaddr_v4 \<Rightarrow> ('sk quic_establisher, unit) res) \<Rightarrow>
   (pubkey \<times> 'sk quic_establisher, unit) res option" where
  "quic_chat_start decode inputs new =
    map_option (\<lambda>k. bind_res k (\<lambda>k. bind_res (unwrap_pubkey k) (\<lambda>peer_key.
        bind_res (new chat_server_addr) (\<lambda>client. Ok (peer_key, quic_add_trusted_remote peer_key client)))))
      (read_key decode inputs)"

subsection \<open>What the loops keep\<close>

lemma new_udp_socket_peer: "new_udp_socket windows os best = Ok socket \<Longrightarrow> so_peer socket = None"
  by (auto simp: new_udp_socket_def split: option.splits if_splits)

lemma handle_initiate_peer:
  assumes "handle_initiate windows env sent k a rid l st = Answered r st' sent'" and "so_peer (est_socket st) = None"
  shows "so_peer (est_socket st') = None \<and> (\<forall>c. r = Some (Ok c) \<longrightarrow> so_peer (nc_socket c) = None)"
  using assms
  by (auto simp: handle_initiate_def Let_def dest: new_udp_socket_peer
      split: option.splits if_splits prod.splits res.splits)

lemma receive_phase_peer:
  assumes "receive_phase windows env sent st = Answered r st' sent'" and "so_peer (est_socket st) = None"
  shows "so_peer (est_socket st') = None \<and> (\<forall>c. r = Some (Ok c) \<longrightarrow> so_peer (nc_socket c) = None)"
  using assms(1)
proof (cases rule: receive_phase_cases)
  case (initiate msg k a rid l)
  then show ?thesis using handle_initiate_peer assms(2) by blast
qed (use assms(2) in \<open>auto simp: idle_answer_def\<close>)

lemma refresh_socket_peer:
  "refresh_socket windows env st = Ok st1 \<Longrightarrow> so_peer (est_socket st) = None \<Longrightarrow> so_peer (est_socket st1) = None"
  by (auto simp: refresh_socket_def Let_def dest: new_udp_socket_peer split: prod.splits if_splits)

text \<open>The sockets of an establisher are never connected to a peer.\<close>

lemma poll_accept_peer:
  assumes "poll_accept ch ed windows env st = Answered r st' sent" and "table_ok st" and "so_peer (est_socket st) = None"
  shows "so_peer (est_socket st') = None \<and> (\<forall>c. r = Some (Ok c) \<longrightarrow> so_peer (nc_socket c) = None)"
proof (cases "refresh_socket windows env st")
  case (Ok st1)
  obtain ks st2 where n: "new_available_remotes_list (pe_list_now env) st1 = (ks, st2)" by fastforce
  note s1 = refresh_socket_peer [OF Ok assms(3)]
  with same_more(5) [OF available_keeps(2) [OF n]] have s2: "so_peer (est_socket st2) = None" by simp
  note u = assms(1) [unfolded poll_accept_def Ok res.case n Let_def case_prod_conv]
  show ?thesis
  proof (cases "request_due (pe_now env) st1 \<and> ks \<noteq> []")
    case True
    with u obtain st3 sent3 where p: "place_connection_requests ch ed env ks st2 = Ok (st3, sent3)"
      and rp: "receive_phase windows env sent3 st3 = Answered r st' sent"
      by (cases "place_connection_requests ch ed env ks st2") (auto simp: place_connection_requests_def bind_res_eq_Err)
    from p s2 have "so_peer (est_socket st3) = None" by (auto simp: place_connection_requests_def)
    with receive_phase_peer [OF rp] show ?thesis by blast
  next
    case False
    with u s1 s2 show ?thesis using receive_phase_peer by (fastforce split: if_splits)
  qed
qed (use assms(1) in \<open>simp_all add: poll_accept_def\<close>)

definition chat_client :: "pubkey \<Rightarrow> 'sk establisher \<Rightarrow> bool" where
  "chat_client k st \<longleftrightarrow> table_ok st \<and> (\<forall>j. bt_get (trusted_remotes st) j \<noteq> None \<longleftrightarrow> j = k)
     \<and> so_peer (est_socket st) = None"

lemma chat_client_poll:
  assumes "chat_client k st" and "poll_accept ch ed windows env st = Answered r st' sent"
  shows "chat_client k st' \<and> (\<forall>c. r = Some (Ok c) \<longrightarrow> nc_pubkey c = k \<and> so_peer (nc_socket c) = None)"
proof -
  have ok: "table_ok st" using assms(1) by (simp add: chat_client_def)
  note socket = poll_accept_peer [OF assms(2) ok]
  from assms(2) ok show ?thesis
  proof (cases rule: poll_accept_effect)
    case quiet
    with assms(1) socket table_ok_poll [OF assms(2) ok] show ?thesis by (auto simp: chat_client_def)
  next
    case (tried j p a rid l out punches reqs sock)
    with assms(1) have "j = k" by (auto simp: chat_client_def punched_def)
    with tried(2) have "nc_pubkey c = k" if "r = Some (Ok c)" for c
      using that by (cases out) (auto simp: punch_answer_def)
    with tried(3) assms(1) socket table_ok_poll [OF assms(2) ok] table_okD(1) [OF ok] \<open>j = k\<close> show ?thesis
      by (auto simp: chat_client_def)
  qed
qed

lemma chat_client_closed: "chat_client k st \<Longrightarrow> chat_client k (on_connection_closed k st)"
  by (auto simp: chat_client_def table_ok_on_connection_closed get_on_connection_closed table_okD(1))
    (simp add: on_connection_closed_def Let_def split: option.split)

lemma chat_client_new:
  assumes "establisher_new checks system_time outcome windows os ifs ifs' sid key addr = Ok st"
  shows "chat_client k (add_trusted_remote k st)"
proof -
  obtain best tr where c: "current_interface ifs tracker_new = (best, tr)" by fastforce
  obtain best' tr' where c': "current_interface ifs' tr = (best', tr')" by fastforce
  from assms have st: "trusted_remotes st = []" "so_peer (est_socket st) = None"
    by (auto simp: establisher_new_def c c' dest: new_udp_socket_peer)
  then have ok: "table_ok st" by (simp add: table_ok_def)
  show ?thesis
    using table_ok_add [OF ok, of k] st get_or_default [of "[]" k]
    by (auto simp: chat_client_def add_trusted_remote_def)
qed

lemma read_key_length: "read_key decode inputs = Some (Ok k) \<Longrightarrow> length k = 32"
  by (induction decode inputs rule: read_key.induct) (auto split: option.splits if_splits)

text \<open>A program that has started trusts the key that was typed and nobody else; the conversion of
  that key does not panic.\<close>

lemma chat_start_client:
  assumes "chat_start decode inputs (establisher_new checks system_time outcome windows os ifs ifs' sid key) = Some r"
  shows "(\<forall>k st. r = Ok (k, st) \<longrightarrow> chat_client k st)
    \<and> (r = Panic \<longrightarrow> read_key decode inputs = Some Panic
        \<or> establisher_new checks system_time outcome windows os ifs ifs' sid key chat_server_addr = Panic)"
proof -
  from assms obtain kr where kr: "read_key decode inputs = Some kr" by (auto simp: chat_start_def)
  show ?thesis
  proof (cases kr)
    case (Ok bs)
    with kr read_key_length obtain key' where "unwrap_pubkey bs = Ok key'"
      by (cases "pubkey_of_bytes bs") (auto simp: unwrap_pubkey_def pubkey_of_bytes_None)
    with assms kr Ok chat_client_new show ?thesis
      by (auto simp: chat_start_def bind_res_eq_Panic)
  qed (use assms kr in \<open>auto simp: chat_start_def\<close>)
qed

subsection \<open>Sessions\<close>

lemma unconnected_session_sends_nothing:
  "so_peer socket = None \<Longrightarrow> run_chat_session socket es = (over, sent, shown) \<Longrightarrow> sent = []"
  by (induction socket es arbitrary: over sent shown rule: run_chat_session.induct)
    (auto simp: udp_send_def split: if_splits prod.splits)

text \<open>Whatever arrives at the socket is shown, until the first line is typed.\<close>

lemma unconnected_session_ends:
  assumes "so_peer socket = None"
  shows "run_chat_session socket (map (\<lambda>(msg, src). Arrived msg src) msgs @ Typed line ok # es)
    = (True, [], map (\<lambda>(msg, src). take 2000 msg) msgs)"
  using assms by (induction msgs) (auto simp: udp_send_def)

text \<open>One round of each loop: no connection, an unfinished session, or a session that is over.\<close>

lemma chat_loop_round:
  assumes "chat_loop ch ed windows k ((env, es) # rounds) st = Some (Ok (st', sessions))"
  obtains (no_session) r st1 sent where "poll_accept ch ed windows env st = Answered r st1 sent"
      "chat_loop ch ed windows k rounds st1 = Some (Ok (st', sessions))"
  | (session) conn st1 sent1 over sent shown rest
    where "poll_accept ch ed windows env st = Answered (Some (Ok conn)) st1 sent1"
      "run_chat_session (nc_socket conn) es = (over, sent, shown)" "sessions = (conn, sent, shown) # rest"
      "if over then chat_loop ch ed windows k rounds (on_connection_closed k st1) = Some (Ok (st', rest))
       else rest = [] \<and> st' = st1"
proof (cases "poll_accept ch ed windows env st")
  case (Answered r st1 sent1)
  note u = assms [unfolded chat_loop.simps Answered poll_outcome.case]
  show ?thesis
  proof (cases "\<exists>conn. r = Some (Ok conn)")
    case False
    with u have "chat_loop ch ed windows k rounds st1 = Some (Ok (st', sessions))"
      by (auto split: option.splits res.splits)
    with Answered show ?thesis by (rule no_session)
  next
    case True
    then obtain conn where r: "r = Some (Ok conn)" ..
    obtain over sent shown where s: "run_chat_session (nc_socket conn) es = (over, sent, shown)"
      by (cases "run_chat_session (nc_socket conn) es")
    note u = u [unfolded r option.case res.case s case_prod_conv]
    from u show ?thesis
      by (intro session [OF Answered [unfolded r] s, of "tl sessions"]) (auto split: if_splits)
  qed
qed (use assms in simp_all)

lemma quic_chat_loop_round:
  assumes "quic_chat_loop lib into_std ch ed windows k ((env, es) # rounds) q = Some (Ok (q', sessions))"
  obtains (no_session) r q1 where "quic_poll_accept lib into_std ch ed windows env q = QAnswered r q1"
      "quic_chat_loop lib into_std ch ed windows k rounds q1 = Some (Ok (q', sessions))"
  | (session) conn q1 over sent shown rest
    where "quic_poll_accept lib into_std ch ed windows env q = QAnswered (Some (Ok conn)) q1"
      "run_quic_session es = (over, sent, shown)" "sessions = (conn, sent, shown) # rest"
      "if over then quic_chat_loop lib into_std ch ed windows k rounds (quic_on_connection_closed k q1)
         = Some (Ok (q', rest))
       else rest = [] \<and> q' = q1"
proof (cases "quic_poll_accept lib into_std ch ed windows env q")
  case (QAnswered r q1)
  note u = assms [unfolded quic_chat_loop.simps QAnswered quic_outcome.case]
  show ?thesis
  proof (cases "\<exists>conn. r = Some (Ok conn)")
    case False
    with u have "quic_chat_loop lib into_std ch ed windows k rounds q1 = Some (Ok (q', sessions))"
      by (auto split: option.splits res.splits)
    with QAnswered show ?thesis by (rule no_session)
  next
    case True
    then obtain conn where r: "r = Some (Ok conn)" ..
    obtain over sent shown where s: "run_quic_session es = (over, sent, shown)"
      by (cases "run_quic_session es")
    note u = u [unfolded r option.case res.case s case_prod_conv]
    from u show ?thesis
      by (intro session [OF QAnswered [unfolded r] s, of "tl sessions"]) (auto split: if_splits)
  qed
qed (use assms in simp_all)

lemma quic_chat_client_poll:
  assumes "chat_client k (inner q)" and "quic_poll_accept lib into_std ch ed windows env q = QAnswered r q'"
  shows "chat_client k (inner q')"
  using assms(2)
proof (cases rule: quic_poll_cases)
  case (passed r0 st sent)
  with chat_client_poll [OF assms(1) passed(1)] show ?thesis by simp
next
  case (failed conn st sent)
  with chat_client_poll [OF assms(1) failed(1)] show ?thesis by (simp add: chat_client_closed)
next
  case (connected conn st sent socket ep con)
  with chat_client_poll [OF assms(1) connected(1)] show ?thesis by simp
qed

subsection \<open>One session after another\<close>

text \<open>
  What both loops have in common: a round without a session, with one that ends the run, or with
  one after which the loop goes on. \<open>good\<close> is kept by every round, and makes its session \<open>fine\<close>.
\<close>

locale session_loop =
  fixes loop :: "'round list \<Rightarrow> 'client \<Rightarrow> ('client \<times> 'session list, unit) res option"
    and good :: "'client \<Rightarrow> bool"
    and fine :: "'session \<Rightarrow> bool"
  assumes loop_done: "loop [] c = Some (Ok (c, []))"
    and loop_round: "good c \<Longrightarrow> loop (r # rs) c = Some (Ok (c', ss)) \<Longrightarrow>
      (\<exists>c1. good c1 \<and> loop rs c1 = Some (Ok (c', ss)))
      \<or> (\<exists>s. fine s \<and> ss = [s] \<and> good c')
      \<or> (\<exists>s c1 rest. fine s \<and> ss = s # rest \<and> good c1 \<and> loop rs c1 = Some (Ok (c', rest)))"
begin

lemma sessions_fine:
  assumes "good c" and "loop rs c = Some (Ok (c', ss))"
  shows "good c' \<and> (\<forall>s \<in> set ss. fine s)"
  using assms
proof (induction rs arbitrary: c ss)
  case Nil
  then show ?case by (simp add: loop_done)
next
  case (Cons r rs)
  from loop_round [OF Cons.prems] show ?case using Cons.IH by auto
qed

end

definition unsent :: "pubkey \<Rightarrow> new_connection \<times> packet list \<times> bytes list \<Rightarrow> bool" where
  "unsent k = (\<lambda>(conn, sent, shown). nc_pubkey conn = k \<and> sent = []
    \<and> (\<forall>msgs line ok es. run_chat_session (nc_socket conn) (map (\<lambda>(msg, src). Arrived msg src) msgs @ Typed line ok # es)
          = (True, [], map (\<lambda>(msg, src). take 2000 msg) msgs)))"

interpretation chat: session_loop "chat_loop ch ed windows k" "chat_client k" "unsent k"
  for ch :: "'dt chrono" and ed :: "'sk ed25519" and windows k
proof
  fix c :: "'sk establisher" and r :: "'dt poll_env \<times> chat_event list" and rs c' ss
  assume good: "chat_client k c" and run: "chat_loop ch ed windows k (r # rs) c = Some (Ok (c', ss))"
  obtain env es where r: "r = (env, es)" by (cases r)
  from run [unfolded r] show "(\<exists>c1. chat_client k c1 \<and> chat_loop ch ed windows k rs c1 = Some (Ok (c', ss)))
      \<or> (\<exists>s. unsent k s \<and> ss = [s] \<and> chat_client k c')
      \<or> (\<exists>s c1 rest. unsent k s \<and> ss = s # rest \<and> chat_client k c1 \<and> chat_loop ch ed windows k rs c1 = Some (Ok (c', rest)))"
  proof (cases rule: chat_loop_round)
    case (no_session r st1 sent)
    with chat_client_poll [OF good no_session(1)] show ?thesis by blast
  next
    case (session conn st1 sent1 over sent shown rest)
    note step = chat_client_poll [OF good session(1)]
    then have conn: "nc_pubkey conn = k" "so_peer (nc_socket conn) = None" by auto
    then have "unsent k (conn, sent, shown)"
      using unconnected_session_sends_nothing [OF conn(2) session(2)] unconnected_session_ends [OF conn(2)]
      by (simp add: unsent_def)
    with session(3,4) step chat_client_closed [of k st1] show ?thesis by (cases over) auto
  qed
qed simp

definition authentic :: "('sk, 'kp, 'att, 'con) quic_lib \<Rightarrow> pubkey \<Rightarrow> 'con quic_connection \<times> bytes list \<times> bytes list \<Rightarrow> bool" where
  "authentic lib k = (\<lambda>(conn, sent, shown). qc_remote_pubkey conn = k \<and> peer_proved lib k (qc_connection conn))"

interpretation quic_chat: session_loop "quic_chat_loop lib into_std ch ed windows k"
    "\<lambda>q. quic_lib_ok lib \<and> chat_client k (inner q)" "authentic lib k"
  for lib :: "('sk, 'kp, 'att, 'con) quic_lib" and into_std and ch :: "'dt chrono" and ed :: "'sk ed25519" and windows k
proof
  fix c :: "'sk quic_establisher" and r :: "'dt poll_env \<times> chat_event list" and rs c' ss
  let ?loop = "quic_chat_loop lib into_std ch ed windows k"
  assume good: "quic_lib_ok lib \<and> chat_client k (inner c)" and run: "?loop (r # rs) c = Some (Ok (c', ss))"
  obtain env es where r: "r = (env, es)" by (cases r)
  from run [unfolded r] show "(\<exists>c1. (quic_lib_ok lib \<and> chat_client k (inner c1)) \<and> ?loop rs c1 = Some (Ok (c', ss)))
      \<or> (\<exists>s. authentic lib k s \<and> ss = [s] \<and> quic_lib_ok lib \<and> chat_client k (inner c'))
      \<or> (\<exists>s c1 rest. authentic lib k s \<and> ss = s # rest \<and> (quic_lib_ok lib \<and> chat_client k (inner c1))
           \<and> ?loop rs c1 = Some (Ok (c', rest)))"
  proof (cases rule: quic_chat_loop_round)
    case (no_session r q1)
    with quic_chat_client_poll [OF conjunct2 [OF good] no_session(1)] good show ?thesis by blast
  next
    case (session conn q1 over sent shown rest)
    note step = quic_chat_client_poll [OF conjunct2 [OF good] session(1)]
    have "table_ok (inner c)" using good by (simp add: chat_client_def)
    from quic_poll_proved [OF conjunct1 [OF good] this session(1)] good have "authentic lib k (conn, sent, shown)"
      by (auto simp: authentic_def chat_client_def enabled_at_def)
    moreover have "chat_client k (inner (quic_on_connection_closed k q1))"
      using step by (simp add: quic_on_connection_closed_def chat_client_closed)
    ultimately show ?thesis using session(3,4) step good by (cases over) auto
  qed
qed simp

subsection \<open>Properties\<close>

text \<open>C39: The UDP chat program never sends a line. Every session is with the one trusted peer, and since
  the punched socket is not connected, \<open>send\<close> fails: the first line typed ends the session, and
  no packet leaves it. Meanwhile it shows whatever datagram arrives, from any source.\<close>

theorem udp_chat_never_sends:
  assumes "chat_client k st"
    and "chat_loop ch ed windows k rounds st = Some (Ok (st', sessions))"
  shows "chat_client k st' \<and> (\<forall>(conn, sent, shown) \<in> set sessions. nc_pubkey conn = k \<and> sent = []
    \<and> (\<forall>msgs line ok es. run_chat_session (nc_socket conn) (map (\<lambda>(msg, src). Arrived msg src) msgs @ Typed line ok # es)
          = (True, [], map (\<lambda>(msg, src). take 2000 msg) msgs)))"
  using chat.sessions_fine [OF assms] by (simp add: unsent_def)

text \<open>Over \<open>ex_env\<close>: a datagram of a stranger is shown, then a line ends the session unsent.\<close>

lemma ex_chat_client: "chat_client (key_fill 2) ex_client"
  unfolding chat_client_def using ex_client_ok by (auto simp: ex_client_def bt_get_def split: if_splits)

definition ex_chat :: "(i64 poll_env \<times> chat_event list) list" where
  "ex_chat = [(ex_env, [Arrived [104, 105] (ex_peer 66), Typed ''hello'' True])]"

lemma ex_chat_run: "chat_loop chrono_ms ed25519_plain False (key_fill 2) ex_chat ex_client =
    Some (Ok (on_connection_closed (key_fill 2) ex_connected, [(ex_connection, [], [[104, 105]])]))"
  by (simp add: ex_chat_def ex_poll) (simp add: ex_connection_def udp_send_def)

theorem udp_chat_never_sends_witness:
  "chat_client (key_fill 2) (on_connection_closed (key_fill 2) ex_connected)
    \<and> run_chat_session (nc_socket ex_connection) [Arrived [1] (ex_peer 66), Typed ''hello'' True, StdinClosed]
        = (True, [], [[1]])"
proof -
  note c = udp_chat_never_sends [OF ex_chat_client ex_chat_run]
  then have "\<forall>msgs line ok es. run_chat_session (nc_socket ex_connection)
      (map (\<lambda>(msg, src). Arrived msg src) msgs @ Typed line ok # es) = (True, [], map (\<lambda>(msg, src). take 2000 msg) msgs)"
    by simp
  from this [THEN spec, of "[([1], ex_peer 66)]", THEN spec, of "''hello''", THEN spec, of True,
      THEN spec, of "[StdinClosed]"] c
  show ?thesis by simp
qed

text \<open>C13: In the QUIC chat program every session is with a peer that proved to hold the trusted key: it
  presented a certificate with that key and signed the handshake under it.\<close>

theorem quic_chat_authentic:
  assumes "quic_lib_ok lib" and "chat_client k (inner q)"
    and "quic_chat_loop lib into_std ch ed windows k rounds q = Some (Ok (q', sessions))"
  shows "chat_client k (inner q') \<and> (\<forall>(conn, sent, shown) \<in> set sessions.
    qc_remote_pubkey conn = k \<and> peer_proved lib k (qc_connection conn))"
  using quic_chat.sessions_fine [OF conjI [OF assms(1,2)] assms(3)] by (simp add: authentic_def)

definition ex_quic_chat :: "(i64 poll_env \<times> chat_event list) list" where
  "ex_quic_chat = [(ex_env, [Typed ''hello'' True, Arrived [104, 105] (ex_peer 8), Typed ''/exit'' True])]"

theorem quic_chat_authentic_witness:
  "\<exists>q' sent shown. quic_chat_loop ex_lib Some chrono_ms ed25519_plain False (key_fill 2) ex_quic_chat ex_quic
      = Some (Ok (q', [(ex_quic_connection, sent, shown)]))
    \<and> sent \<noteq> [] \<and> shown \<noteq> [] \<and> peer_proved ex_lib (key_fill 2) (qc_connection ex_quic_connection)"
proof -
  have c: "chat_client (key_fill 2) (inner ex_quic)" using ex_chat_client by (simp add: ex_quic_def)
  have run: "quic_chat_loop ex_lib Some chrono_ms ed25519_plain False (key_fill 2) ex_quic_chat ex_quic
      = Some (Ok (quic_on_connection_closed (key_fill 2) (ex_quic\<lparr>inner := ex_connected\<rparr>),
          [(ex_quic_connection, [text_bytes ''hello''], [[104, 105]])]))"
    by (simp add: ex_quic_chat_def ex_quic_poll)
  from quic_chat_authentic [OF ex_lib_ok c run] run show ?thesis by auto
qed

end
