(* ===== verification/Tcp_State.thy ===== *)
theory Tcp_State
  imports Rust_Collections Net_Types
begin

text \<open>
  The state of the TCP rendezvous server (\<open>src/server/tcp_state.rs\<close>) and the messages of its
  protocol (\<open>src/tcp/messages.rs\<close>): services announce themselves under a session id, clients
  leave a connection request with an announced service, and the service's next announcement
  takes the request. A \<open>oneshot\<close> channel is known by a number. What the server relies on is the
  locale \<open>request_board\<close>.
\<close>

subsection \<open>Messages\<close>

definition SCHEDULE_CON_MS :: nat where "SCHEDULE_CON_MS = 500"
definition CONNECTION_REQUEST_TIMEOUT_MS :: nat where "CONNECTION_REQUEST_TIMEOUT_MS = 5000"
definition ANNOUNCEMENT_DURATION_MS :: nat where "ANNOUNCEMENT_DURATION_MS = 3000"

record client_announcement_data =
  ad_session :: u64
  ad_app :: string
  ad_username :: string

text \<open>\<open>Display\<close>.\<close>

definition announcement_display :: "client_announcement_data \<Rightarrow> string" where
  "announcement_display d = ''['' @ ad_app d @ ''] '' @ ad_username d"

datatype to_nat_server_msg =
    AnnounceAndCheck client_announcement_data
  | GetClients string
  | TcpConnectionRequest u64

record client_announcement =
  ca_data :: client_announcement_data
  ca_addr :: socket_addr
  ca_tm_ago :: duration

datatype to_nat_client_msg =
    Clients "client_announcement list"
  | RemoteAddr socket_addr
  | StartCountdown duration

subsection \<open>State\<close>

type_synonym chan = nat

record incoming_connection =
  ic_tm :: instant
  ic_addr :: socket_addr
  ic_tx :: chan

record known_client =
  last_announcement :: instant
  kc_data :: client_announcement_data
  kc_addr :: socket_addr
  pending_connection :: "incoming_connection option"

type_synonym tcp_state = "(u64, known_client) hmap"

text \<open>\<open>State::new\<close>; the mutex around the map makes each operation one step.\<close>

definition tcp_state_new :: tcp_state where "tcp_state_new = []"

subsection \<open>Operations\<close>

text \<open>\<open>now\<close> is read for the announcement, \<open>now'\<close> while the pending request is checked.\<close>

definition announce_check ::
  "instant \<Rightarrow> instant \<Rightarrow> client_announcement_data \<Rightarrow> socket_addr \<Rightarrow> tcp_state \<Rightarrow>
   incoming_connection option \<times> tcp_state" where
  "announce_check now now' announce addr clients =
    (let entry = (case hm_get clients (ad_session announce) of
           Some e \<Rightarrow> e\<lparr>last_announcement := now, kc_addr := addr, kc_data := announce\<rparr>
         | None \<Rightarrow> \<lparr>last_announcement = now, kc_data = announce, kc_addr = addr, pending_connection = None\<rparr>)
     in case pending_connection entry of
          Some c \<Rightarrow>
            if ic_tm c > now'
            then (Some c, hm_insert (ad_session announce) (entry\<lparr>pending_connection := None\<rparr>) clients)
            else (None, hm_insert (ad_session announce) entry clients)
        | None \<Rightarrow> (None, hm_insert (ad_session announce) entry clients))"

definition get_clients :: "instant \<Rightarrow> string \<Rightarrow> tcp_state \<Rightarrow> client_announcement list" where
  "get_clients now app clients =
    map (\<lambda>c. \<lparr>ca_data = kc_data c, ca_addr = kc_addr c, ca_tm_ago = elapsed now (last_announcement c)\<rparr>)
      (hm_values clients)"

text \<open>\<open>ch\<close> is the new channel; its receiver is returned.\<close>

definition insert_connection_request ::
  "instant \<Rightarrow> chan \<Rightarrow> u64 \<Rightarrow> socket_addr \<Rightarrow> tcp_state \<Rightarrow> (chan \<times> socket_addr) option \<times> tcp_state" where
  "insert_connection_request now ch session addr clients =
    (case hm_get clients session of
       Some client \<Rightarrow>
         (Some (ch, kc_addr client),
          hm_insert session (client\<lparr>pending_connection := Some
            \<lparr>ic_tm = now + from_millis (CONNECTION_REQUEST_TIMEOUT_MS - 500), ic_addr = addr, ic_tx = ch\<rparr>\<rparr>) clients)
     | None \<Rightarrow> (None, clients))"

definition remove_connection_request :: "u64 \<Rightarrow> tcp_state \<Rightarrow> tcp_state" where
  "remove_connection_request session clients =
    (case hm_get clients session of
       Some client \<Rightarrow> hm_insert session (client\<lparr>pending_connection := None\<rparr>) clients
     | None \<Rightarrow> clients)"

definition announcement_expired :: "instant \<Rightarrow> known_client \<Rightarrow> bool" where
  "announcement_expired now c \<longleftrightarrow> elapsed now (last_announcement c) > from_millis ANNOUNCEMENT_DURATION_MS"

definition poll_update :: "instant \<Rightarrow> tcp_state \<Rightarrow> tcp_state" where
  "poll_update now clients =
    (let to_remove = map (\<lambda>e. ad_session (kc_data e)) (filter (announcement_expired now) (hm_values clients))
     in fold hm_remove to_remove clients)"

subsection \<open>Well-formed states\<close>

text \<open>Every entry stands under the session id of its own announcement.\<close>

definition tcp_ok :: "tcp_state \<Rightarrow> bool" where
  "tcp_ok clients \<longleftrightarrow> hm_ok clients
     \<and> (\<forall>s c. hm_get clients s = Some c \<longrightarrow> ad_session (kc_data c) = s)"

lemma tcp_okD:
  "tcp_ok clients \<Longrightarrow> hm_ok clients"
  "tcp_ok clients \<Longrightarrow> hm_get clients s = Some c \<Longrightarrow> ad_session (kc_data c) = s"
  by (auto simp: tcp_ok_def)

lemma tcp_ok_new [simp]: "tcp_ok tcp_state_new"
  by (simp add: tcp_ok_def tcp_state_new_def hm_ok_def)

lemma tcp_ok_insert: "tcp_ok clients \<Longrightarrow> ad_session (kc_data c) = s \<Longrightarrow> tcp_ok (hm_insert s c clients)"
  by (auto simp: tcp_ok_def)

lemma fold_hm_remove:
  "hm_ok m \<Longrightarrow> hm_ok (fold hm_remove ks m) \<and>
     (\<forall>j. hm_get (fold hm_remove ks m) j = (if j \<in> set ks then None else hm_get m j))"
  by (induction ks arbitrary: m) auto

lemma hm_get_poll_update:
  assumes "tcp_ok clients"
  shows "hm_get (poll_update now clients) s =
    (case hm_get clients s of None \<Rightarrow> None
     | Some c \<Rightarrow> if announcement_expired now c then None else Some c)"
proof -
  note ok = tcp_okD(1) [OF assms]
  let ?rm = "map (\<lambda>e. ad_session (kc_data e)) (filter (announcement_expired now) (hm_values clients))"
  have "s \<in> set ?rm \<longleftrightarrow> (\<exists>c. hm_get clients s = Some c \<and> announcement_expired now c)"
    using tcp_okD(2) [OF assms] by (auto simp: set_hm_values [OF ok] image_iff)
  moreover have "hm_get (poll_update now clients) s = (if s \<in> set ?rm then None else hm_get clients s)"
    using fold_hm_remove [OF ok, of ?rm] by (simp only: poll_update_def Let_def)
  ultimately show ?thesis by (auto split: option.split)
qed

lemma hm_ok_poll_update: "hm_ok clients \<Longrightarrow> hm_ok (poll_update now clients)"
  by (simp add: poll_update_def Let_def fold_hm_remove)

lemma tcp_ok_poll_update: "tcp_ok clients \<Longrightarrow> tcp_ok (poll_update now clients)"
  by (auto simp: tcp_ok_def hm_get_poll_update hm_ok_poll_update split: option.splits if_splits)

text \<open>The entry after an announcement, and the pending request it finds.\<close>

definition pending_of :: "tcp_state \<Rightarrow> u64 \<Rightarrow> incoming_connection option" where
  "pending_of clients s = (case hm_get clients s of None \<Rightarrow> None | Some c \<Rightarrow> pending_connection c)"

definition alive :: "instant \<Rightarrow> incoming_connection option \<Rightarrow> incoming_connection option" where
  "alive now p = (case p of None \<Rightarrow> None | Some c \<Rightarrow> if ic_tm c > now then Some c else None)"

abbreviation live_pending :: "instant \<Rightarrow> tcp_state \<Rightarrow> u64 \<Rightarrow> incoming_connection option" where
  "live_pending now clients s \<equiv> alive now (pending_of clients s)"

lemma announce_check_eq:
  "announce_check now now' announce addr clients =
    (live_pending now' clients (ad_session announce),
     hm_insert (ad_session announce)
       \<lparr>last_announcement = now, kc_data = announce, kc_addr = addr,
        pending_connection = (if live_pending now' clients (ad_session announce) = None
                              then pending_of clients (ad_session announce) else None)\<rparr> clients)"
proof (cases "hm_get clients (ad_session announce)")
  case None
  then show ?thesis by (simp add: announce_check_def alive_def pending_of_def)
next
  case (Some e)
  then show ?thesis
    by (cases e; cases "pending_connection e")
      (auto simp: announce_check_def alive_def pending_of_def Let_def)
qed

lemma tcp_ok_announce_check: "tcp_ok clients \<Longrightarrow> tcp_ok (snd (announce_check now now' announce addr clients))"
  by (simp add: announce_check_eq tcp_ok_insert)

lemma tcp_ok_pending: "tcp_ok clients \<Longrightarrow> hm_get clients s = Some c \<Longrightarrow> tcp_ok (hm_insert s (c\<lparr>pending_connection := p\<rparr>) clients)"
  by (rule tcp_ok_insert) (simp_all add: tcp_okD)

lemma tcp_ok_insert_request: "tcp_ok clients \<Longrightarrow> tcp_ok (snd (insert_connection_request now ch s addr clients))"
  by (auto simp: insert_connection_request_def tcp_ok_pending split: option.split)

lemma tcp_ok_remove_request: "tcp_ok clients \<Longrightarrow> tcp_ok (remove_connection_request s clients)"
  by (auto simp: remove_connection_request_def tcp_ok_pending split: option.split)

lemma pending_of_announce_check:
  "tcp_ok clients \<Longrightarrow> pending_of (snd (announce_check now now' announce addr clients)) s =
    (if s = ad_session announce \<and> live_pending now' clients s \<noteq> None then None else pending_of clients s)"
  using tcp_okD(1) [of clients] by (auto simp: announce_check_eq pending_of_def)

lemma pending_of_insert_request:
  "tcp_ok clients \<Longrightarrow> pending_of (snd (insert_connection_request now ch s addr clients)) s' =
    (if s' = s \<and> hm_get clients s \<noteq> None
     then Some \<lparr>ic_tm = now + from_millis (CONNECTION_REQUEST_TIMEOUT_MS - 500), ic_addr = addr, ic_tx = ch\<rparr>
     else pending_of clients s')"
  using tcp_okD(1) [of clients] by (auto simp: insert_connection_request_def pending_of_def split: option.split)

lemma pending_of_remove_request:
  "tcp_ok clients \<Longrightarrow> pending_of (remove_connection_request s clients) s' =
    (if s' = s then None else pending_of clients s')"
  using tcp_okD(1) [of clients] by (auto simp: remove_connection_request_def pending_of_def split: option.split)

subsection \<open>The board of requests\<close>

text \<open>
  What the tasks of the server rely on: a board on which services stand since their last
  announcement (\<open>seen\<close>) and each has at most one request (\<open>pending\<close>). \<open>waits\<close> is how long a request
  can be taken, \<open>stays\<close> how long an announcement stands.
\<close>

locale request_board =
  fixes good :: "'b \<Rightarrow> bool" and seen :: "'b \<Rightarrow> u64 \<Rightarrow> instant option"
    and pending :: "'b \<Rightarrow> u64 \<Rightarrow> incoming_connection option"
    and announce :: "instant \<Rightarrow> instant \<Rightarrow> client_announcement_data \<Rightarrow> socket_addr \<Rightarrow> 'b \<Rightarrow> incoming_connection option \<times> 'b"
    and request :: "instant \<Rightarrow> chan \<Rightarrow> u64 \<Rightarrow> socket_addr \<Rightarrow> 'b \<Rightarrow> (chan \<times> socket_addr) option \<times> 'b"
    and withdraw :: "u64 \<Rightarrow> 'b \<Rightarrow> 'b" and expire :: "instant \<Rightarrow> 'b \<Rightarrow> 'b"
    and waits :: duration and stays :: duration
  assumes good: "good b \<Longrightarrow> good (snd (announce now now' a addr b))" "good b \<Longrightarrow> good (snd (request now ch s addr b))"
      "good b \<Longrightarrow> good (withdraw s b)" "good b \<Longrightarrow> good (expire now b)"
    and announced: "fst (announce now now' a addr b) = alive now' (pending b (ad_session a))"
    and pending_announce: "good b \<Longrightarrow> pending (snd (announce now now' a addr b)) s =
      (if s = ad_session a \<and> alive now' (pending b s) \<noteq> None then None else pending b s)"
    and seen_announce: "good b \<Longrightarrow> seen (snd (announce now now' a addr b)) s = (if s = ad_session a then Some now else seen b s)"
    and pending_request: "good b \<Longrightarrow> pending (snd (request now ch s addr b)) s' =
      (if s' = s \<and> seen b s \<noteq> None then Some \<lparr>ic_tm = now + waits, ic_addr = addr, ic_tx = ch\<rparr> else pending b s')"
    and seen_request: "good b \<Longrightarrow> seen (snd (request now ch s addr b)) s' = seen b s'"
    and pending_withdraw: "good b \<Longrightarrow> pending (withdraw s b) s' = (if s' = s then None else pending b s')"
    and seen_withdraw: "good b \<Longrightarrow> seen (withdraw s b) s' = seen b s'"
    and pending_expire: "good b \<Longrightarrow> pending (expire now b) s = (if seen (expire now b) s = None then None else pending b s)"
    and seen_expire: "good b \<Longrightarrow> seen (expire now b) s =
      (case seen b s of None \<Rightarrow> None | Some t \<Rightarrow> if t + stays < now then None else Some t)"
begin

lemma announce_lets_go:
  "good b \<Longrightarrow> pending (snd (announce now now' a addr b)) s = Some ic \<Longrightarrow> pending b s = Some ic"
  by (simp add: pending_announce split: if_splits)

lemma withdraw_lets_go: "good b \<Longrightarrow> pending (withdraw s' b) s = Some ic \<Longrightarrow> pending b s = Some ic"
  by (simp add: pending_withdraw split: if_splits)

lemma expire_lets_go: "good b \<Longrightarrow> pending (expire now b) s = Some ic \<Longrightarrow> pending b s = Some ic"
  by (simp add: pending_expire split: if_splits)

text \<open>Operations on other sessions, and clean-ups that are not later than \<open>dl\<close>.\<close>

inductive undisturbed :: "u64 \<Rightarrow> instant \<Rightarrow> 'b \<Rightarrow> 'b \<Rightarrow> bool" for s dl b where
  start: "undisturbed s dl b b"
| announces: "undisturbed s dl b b' \<Longrightarrow> ad_session a \<noteq> s \<Longrightarrow> undisturbed s dl b (snd (announce now now' a addr b'))"
| requests: "undisturbed s dl b b' \<Longrightarrow> s' \<noteq> s \<Longrightarrow> undisturbed s dl b (snd (request now ch s' addr b'))"
| withdraws: "undisturbed s dl b b' \<Longrightarrow> s' \<noteq> s \<Longrightarrow> undisturbed s dl b (withdraw s' b')"
| expires: "undisturbed s dl b b' \<Longrightarrow> now \<le> dl \<Longrightarrow> undisturbed s dl b (expire now b')"

lemma undisturbed_keeps:
  assumes "undisturbed s dl b b'" and "good b" and "seen b s = Some t" and "dl \<le> t + stays"
  shows "good b' \<and> seen b' s = Some t \<and> pending b' s = pending b s"
  using assms(1)
proof induction
  case start
  with assms show ?case by simp
next
  case (expires b' now)
  with assms(4) show ?case by (simp add: good pending_expire seen_expire)
qed (simp_all add: good pending_announce seen_announce pending_request seen_request pending_withdraw seen_withdraw)

text \<open>A request left with an announced service is what its next announcement takes, once.\<close>

lemma request_taken:
  assumes "good b" and "seen b (ad_session a) = Some t"
    and "undisturbed (ad_session a) (t + stays) (snd (request now ch (ad_session a) addr b)) b'"
    and "u' < now + waits"
  defines "ic \<equiv> \<lparr>ic_tm = now + waits, ic_addr = addr, ic_tx = ch\<rparr>"
  shows "fst (announce u u' a addr' b') = Some ic"
    and "ad_session c = ad_session a \<Longrightarrow> fst (announce v v' c addr'' (snd (announce u u' a addr' b'))) = None"
proof -
  from undisturbed_keeps [OF assms(3)] assms(1,2)
  have b': "good b'" "pending b' (ad_session a) = Some ic"
    by (simp_all add: good seen_request pending_request ic_def)
  then have live: "alive u' (pending b' (ad_session a)) = Some ic" using assms(4) by (simp add: alive_def ic_def)
  then show "fst (announce u u' a addr' b') = Some ic" by (simp add: announced)
  show "fst (announce v v' c addr'' (snd (announce u u' a addr' b'))) = None" if "ad_session c = ad_session a"
    using that live b'(1) by (simp add: announced pending_announce) (simp add: alive_def)
qed

text \<open>Two requests for one session cancel each other when the first requester gives up.\<close>

lemma requests_cancel:
  assumes "good b" and "ad_session a = s"
  shows "fst (announce t t' a addr (withdraw s (snd (request t\<^sub>2 ch\<^sub>2 s addr\<^sub>2 (snd (request t\<^sub>1 ch\<^sub>1 s addr\<^sub>1 b)))))) = None"
  using assms by (simp add: announced pending_withdraw good) (simp add: alive_def)

end

text \<open>The server's state is such a board.\<close>

definition seen_of :: "tcp_state \<Rightarrow> u64 \<Rightarrow> instant option" where
  "seen_of clients s = map_option last_announcement (hm_get clients s)"

lemma seen_of_None: "seen_of clients s = None \<longleftrightarrow> hm_get clients s = None"
  by (simp add: seen_of_def)

lemma seen_of_poll_update:
  assumes "tcp_ok clients"
  shows "seen_of (poll_update now clients) s =
    (case seen_of clients s of None \<Rightarrow> None | Some t \<Rightarrow> if t + from_millis ANNOUNCEMENT_DURATION_MS < now then None else Some t)"
  using hm_get_poll_update [OF assms, of now s]
  by (auto simp: seen_of_def announcement_expired_def elapsed_def split: option.splits)

lemma seen_of_keeps:
  assumes "tcp_ok clients"
  shows "seen_of (snd (insert_connection_request now ch s addr clients)) s' = seen_of clients s'"
    and "seen_of (remove_connection_request s clients) s' = seen_of clients s'"
  using tcp_okD(1) [OF assms]
  by (auto simp: seen_of_def insert_connection_request_def remove_connection_request_def split: option.split)

interpretation board: request_board tcp_ok seen_of pending_of announce_check insert_connection_request
  remove_connection_request poll_update "from_millis (CONNECTION_REQUEST_TIMEOUT_MS - 500)"
  "from_millis ANNOUNCEMENT_DURATION_MS"
proof unfold_locales
  fix clients now now' a addr s
  show "fst (announce_check now now' a addr clients) = alive now' (pending_of clients (ad_session a))"
    by (simp add: announce_check_eq)
  assume ok: "tcp_ok clients"
  show "seen_of (snd (announce_check now now' a addr clients)) s = (if s = ad_session a then Some now else seen_of clients s)"
    using tcp_okD(1) [OF ok] by (simp add: announce_check_eq seen_of_def)
  show "pending_of (poll_update now clients) s = (if seen_of (poll_update now clients) s = None then None else pending_of clients s)"
    using hm_get_poll_update [OF ok, of now s] by (auto simp: pending_of_def seen_of_def split: option.splits)
qed (simp_all add: tcp_ok_announce_check tcp_ok_insert_request tcp_ok_remove_request tcp_ok_poll_update
    pending_of_announce_check pending_of_insert_request pending_of_remove_request seen_of_poll_update seen_of_keeps
    seen_of_None)

subsection \<open>Properties\<close>

definition ex_service :: client_announcement_data where
  "ex_service = \<lparr>ad_session = 42, ad_app = ''chat'', ad_username = ''alice''\<rparr>"

definition ex_at :: "u8 \<Rightarrow> socket_addr" where
  "ex_at n = SockV4 (sock4 (Ipv4 10 1 1 n) 80)"

definition ex_clients :: tcp_state where
  "ex_clients = snd (announce_check 0 0 ex_service (ex_at 1) tcp_state_new)"

lemma ex_clients_eq: "ex_clients = [(42, \<lparr>last_announcement = 0, kc_data = ex_service, kc_addr = ex_at 1, pending_connection = None\<rparr>)]"
  by (simp add: ex_clients_def announce_check_def tcp_state_new_def ex_service_def hm_insert_def)

lemma ex_clients_ok [simp]: "tcp_ok ex_clients"
  unfolding ex_clients_def by (rule tcp_ok_announce_check) simp

text \<open>Cleaning up removes exactly the announcements older than three seconds and leaves every other
  client as it was.\<close>

lemma tcp_cleanup_exact:
  assumes "tcp_ok clients"
  shows "hm_get (poll_update now clients) s =
    (case hm_get clients s of None \<Rightarrow> None
     | Some c \<Rightarrow> if last_announcement c + from_millis 3000 < now then None else Some c)"
  using hm_get_poll_update [OF assms, of now s]
  by (auto simp: announcement_expired_def elapsed_def ANNOUNCEMENT_DURATION_MS_def split: option.splits)

lemma tcp_cleanup_exact_witness:
  "hm_get (poll_update 5 ex_clients) 42 =
    (case hm_get ex_clients 42 of None \<Rightarrow> None
     | Some c \<Rightarrow> if last_announcement c + from_millis 3000 < 5 then None else Some c)"
  by (rule tcp_cleanup_exact [OF ex_clients_ok])

datatype tcp_operation =
    OpAnnounce instant instant client_announcement_data socket_addr
  | OpRequest instant chan u64 socket_addr
  | OpRemove u64
  | OpCleanup instant

fun apply_op :: "tcp_operation \<Rightarrow> tcp_state \<Rightarrow> tcp_state" where
  "apply_op (OpAnnounce now now' a addr) st = snd (announce_check now now' a addr st)"
| "apply_op (OpRequest now ch s addr) st = snd (insert_connection_request now ch s addr st)"
| "apply_op (OpRemove s) st = remove_connection_request s st"
| "apply_op (OpCleanup now) st = poll_update now st"

text \<open>Operations on other sessions, and cleanups before the instant \<open>dl\<close>.\<close>

fun leaves_alone :: "u64 \<Rightarrow> instant \<Rightarrow> tcp_operation \<Rightarrow> bool" where
  "leaves_alone s dl (OpAnnounce now now' a addr) = (ad_session a \<noteq> s)"
| "leaves_alone s dl (OpRequest now ch s' addr) = (s' \<noteq> s)"
| "leaves_alone s dl (OpRemove s') = (s' \<noteq> s)"
| "leaves_alone s dl (OpCleanup now) = (now \<le> dl)"

lemma ops_undisturbed:
  "\<forall>op \<in> set ops. leaves_alone s dl op \<Longrightarrow> board.undisturbed s dl st (fold apply_op ops st)"
proof (induction ops rule: rev_induct)
  case Nil
  show ?case by (simp add: board.undisturbed.start)
next
  case (snoc op ops)
  then have "board.undisturbed s dl st (fold apply_op ops st)" "leaves_alone s dl op" by simp_all
  then show ?case
    by (cases op) (simp_all add: board.undisturbed.announces board.undisturbed.requests
        board.undisturbed.withdraws board.undisturbed.expires)
qed

text \<open>C24: A connection request reaches the service it names: left with an announced service, it is what
  the service's next announcement returns, with the requester's address and channel, if that
  comes within four and a half seconds, whatever happens to other sessions in between and
  whenever the server cleans up before the earlier announcement is three seconds old. It is
  returned only once.\<close>

theorem tcp_request_delivered:
  assumes "tcp_ok st" and "hm_get st s = Some c"
    and "insert_connection_request now ch s addr st = (found, st1)"
    and "\<forall>op \<in> set ops. leaves_alone s (last_announcement c + from_millis ANNOUNCEMENT_DURATION_MS) op"
    and "ad_session a = s" and "ad_session b = s" and "t' < now + from_millis 4500"
    and "announce_check t t' a service_addr (fold apply_op ops st1) = (r, st2)"
  shows "found = Some (ch, kc_addr c)
    \<and> r = Some \<lparr>ic_tm = now + from_millis 4500, ic_addr = addr, ic_tx = ch\<rparr>
    \<and> fst (announce_check u u' b other_addr st2) = None"
proof -
  have st1: "st1 = snd (insert_connection_request now ch s addr st)" using assms(3) by simp
  have seen: "seen_of st (ad_session a) = Some (last_announcement c)" using assms(2,5) by (simp add: seen_of_def)
  have "u' < now + from_millis (CONNECTION_REQUEST_TIMEOUT_MS - 500) \<longleftrightarrow> u' < now + from_millis 4500" for u'
    by (simp add: CONNECTION_REQUEST_TIMEOUT_MS_def)
  note taken = board.request_taken [OF assms(1) seen, where now = now and ch = ch and addr = addr and u' = t' and u = t
      and addr' = service_addr and b' = "fold apply_op ops st1",
    unfolded assms(5) this, folded st1, OF ops_undisturbed [OF assms(4)] assms(7)]
  have "found = Some (ch, kc_addr c)" using assms(2,3) by (simp add: insert_connection_request_def)
  moreover have "fst (announce_check u u' b other_addr st2) = None"
    using taken(2) [of b u u' other_addr] assms(6,8) by simp
  ultimately show ?thesis using taken(1) assms(8) by (simp add: CONNECTION_REQUEST_TIMEOUT_MS_def)
qed

theorem tcp_request_delivered_witness:
  "\<exists>r st2. announce_check 9 9 ex_service (ex_at 1) (fold apply_op [OpCleanup 4]
        (snd (insert_connection_request 1 7 42 (ex_at 2) ex_clients))) = (r, st2)
    \<and> r = Some \<lparr>ic_tm = 1 + from_millis 4500, ic_addr = ex_at 2, ic_tx = 7\<rparr>
    \<and> fst (announce_check 10 10 ex_service (ex_at 1) st2) = None"
proof -
  obtain found st1 where ins: "insert_connection_request 1 7 42 (ex_at 2) ex_clients = (found, st1)"
    by (cases "insert_connection_request 1 7 42 (ex_at 2) ex_clients") auto
  obtain r st2 where ann: "announce_check 9 9 ex_service (ex_at 1) (fold apply_op [OpCleanup 4] st1) = (r, st2)"
    by (cases "announce_check 9 9 ex_service (ex_at 1) (fold apply_op [OpCleanup 4] st1)") auto
  let ?c = "\<lparr>last_announcement = 0, kc_data = ex_service, kc_addr = ex_at 1, pending_connection = None\<rparr>"
  have get: "hm_get ex_clients 42 = Some ?c" by (simp add: ex_clients_eq hm_get_def)
  have "\<forall>op \<in> set [OpCleanup 4]. leaves_alone 42 (last_announcement ?c + from_millis ANNOUNCEMENT_DURATION_MS) op"
    by (simp add: time_simps ANNOUNCEMENT_DURATION_MS_def)
  moreover have "ad_session ex_service = 42" by (simp add: ex_service_def)
  moreover have "(9::nat) < 1 + from_millis 4500" by (simp add: time_simps)
  ultimately show ?thesis
    using tcp_request_delivered [OF ex_clients_ok get ins _ _ _ _ ann, of ex_service 10 10 "ex_at 1"] ins ann by auto
qed

text \<open>Two requests for one session cancel each other: when a second request replaces the first and the
  first requester then gives up, the clean-up of the first one removes the second one too, and
  the service is told of neither, however soon it announces itself.\<close>

lemma tcp_requests_cancel:
  assumes "tcp_ok st" and "ad_session a = s"
    and "insert_connection_request t\<^sub>1 ch\<^sub>1 s addr\<^sub>1 st = (r\<^sub>1, st\<^sub>1)"
    and "insert_connection_request t\<^sub>2 ch\<^sub>2 s addr\<^sub>2 st\<^sub>1 = (r\<^sub>2, st\<^sub>2)"
  shows "fst (announce_check t t' a addr (remove_connection_request s st\<^sub>2)) = None"
  using board.requests_cancel [OF assms(1,2), of t t' addr t\<^sub>2 ch\<^sub>2 addr\<^sub>2 t\<^sub>1 ch\<^sub>1 addr\<^sub>1] assms(3,4) by simp

lemma tcp_requests_cancel_witness:
  "fst (announce_check 3 3 ex_service (ex_at 1) (remove_connection_request 42
     (snd (insert_connection_request 2 1 42 (ex_at 3) (snd (insert_connection_request 1 0 42 (ex_at 2) ex_clients)))))) = None"
proof -
  obtain r st1 where a: "insert_connection_request 1 0 42 (ex_at 2) ex_clients = (r, st1)"
    by (cases "insert_connection_request 1 0 42 (ex_at 2) ex_clients") auto
  obtain r' st2 where b: "insert_connection_request 2 1 42 (ex_at 3) st1 = (r', st2)"
    by (cases "insert_connection_request 2 1 42 (ex_at 3) st1") auto
  from tcp_requests_cancel [OF ex_clients_ok _ a b, of ex_service] a b show ?thesis
    by (simp add: ex_service_def)
qed

end

