(* ===== verification/Tcp_Server.thy ===== *)
theory Tcp_Server
  imports Tcp_State
begin

text \<open>
  The tasks of the TCP rendezvous server (\<open>handle_tcp_client\<close> and \<open>run_tcp_server\<close>,
  \<open>src/server.rs\<close>), one for each connection, over the shared state of \<open>Tcp_State\<close>. A task that
  left a connection request waits on a \<open>oneshot\<close> channel for the confirmation. The steps of
  the tasks interleave; each takes the mutex at most once. The messages that a task sends while
  it handles one belong to that step: a send concerns nothing but the task's own connection, and
  what the other tasks do between two of them commutes with it. The clock that a step reads is
  any (only the readings of one step are in order), so that there are more runs here than with a
  clock that the tasks share; what is proved of all runs holds of those, and the steps that a
  property says can be taken are no clean-ups.
\<close>

subsection \<open>Tasks and channels\<close>

text \<open>A channel is open, was sent to, lost its sender unsent, or lost its receiver.\<close>

datatype chan_state = ChanOpen | ChanSent | TxDropped | RxDropped

text \<open>
  Where a task is: at the top of its loop; waiting, for the channel and until the deadline of
  the \<open>timeout\<close>, after it left a request for a session; about to remove that request; out of the
  loop; or dead, because a send that is unwrapped failed.
\<close>

datatype task_status =
    Looping
  | Awaiting chan u64 instant
  | Removing u64
  | Finished
  | Crashed

record tcp_task =
  tk_addr :: socket_addr
  tk_status :: task_status
  tk_sent :: "to_nat_client_msg list"

record tcp_server =
  ts_clients :: tcp_state
  ts_chans :: "chan \<Rightarrow> chan_state"
  ts_next :: chan
  ts_tasks :: "nat \<Rightarrow> tcp_task option"

definition tcp_server_new :: tcp_server where
  "tcp_server_new = \<lparr>ts_clients = tcp_state_new, ts_chans = (\<lambda>_. ChanOpen), ts_next = 0, ts_tasks = (\<lambda>_. None)\<rparr>"

definition new_task :: "socket_addr \<Rightarrow> tcp_task" where
  "new_task addr = \<lparr>tk_addr = addr, tk_status = Looping, tk_sent = []\<rparr>"

text \<open>\<open>channel.send(..).await.unwrap()\<close>; \<open>ok\<close> is whether the send succeeds.\<close>

definition send_msg :: "bool \<Rightarrow> to_nat_client_msg \<Rightarrow> tcp_task \<Rightarrow> tcp_task" where
  "send_msg ok m tk =
    (if tk_status tk = Crashed then tk
     else if ok then tk\<lparr>tk_sent := tk_sent tk @ [m]\<rparr>
     else tk\<lparr>tk_status := Crashed\<rparr>)"

definition set_task :: "nat \<Rightarrow> tcp_task \<Rightarrow> tcp_server \<Rightarrow> tcp_server" where
  "set_task c tk s = s\<lparr>ts_tasks := (ts_tasks s)(c \<mapsto> tk)\<rparr>"

text \<open>The channels whose senders the state holds; a sender that the state lets go of is dropped.\<close>

definition held :: "tcp_state \<Rightarrow> chan list" where
  "held clients = List.map_filter (\<lambda>c. map_option ic_tx (pending_connection c)) (hm_values clients)"

definition with_clients :: "tcp_state \<Rightarrow> tcp_server \<Rightarrow> tcp_server" where
  "with_clients clients s = s\<lparr>ts_clients := clients,
     ts_chans := (\<lambda>i. if i \<in> set (held (ts_clients s)) \<and> i \<notin> set (held clients) \<and> ts_chans s i = ChanOpen
                     then TxDropped else ts_chans s i)\<rparr>"

definition set_chan :: "chan \<Rightarrow> chan_state \<Rightarrow> tcp_server \<Rightarrow> tcp_server" where
  "set_chan i v s = s\<lparr>ts_chans := (ts_chans s)(i := v)\<rparr>"

subsection \<open>Handling a message\<close>

text \<open>
  \<open>now\<close> and \<open>now'\<close> are the clock's readings, in order; \<open>ok\<^sub>1\<close> and \<open>ok\<^sub>2\<close> are whether the first
  and the second send succeed. The value is the state once the task waits, loops or ends.
\<close>

definition handle_msg ::
  "instant \<Rightarrow> instant \<Rightarrow> bool \<Rightarrow> bool \<Rightarrow> to_nat_server_msg \<Rightarrow> nat \<Rightarrow> tcp_task \<Rightarrow> tcp_server \<Rightarrow> tcp_server" where
  "handle_msg now now' ok\<^sub>1 ok\<^sub>2 msg c tk s = (case msg of
      GetClients app \<Rightarrow> set_task c (send_msg ok\<^sub>1 (Clients (get_clients now app (ts_clients s))) tk) s
    | AnnounceAndCheck announce \<Rightarrow>
        (case announce_check now now' announce (tk_addr tk) (ts_clients s) of
           (Some incoming, clients) \<Rightarrow>
             if ts_chans s (ic_tx incoming) = ChanOpen
             then set_task c (send_msg ok\<^sub>2 (StartCountdown (from_millis SCHEDULE_CON_MS))
                                (send_msg ok\<^sub>1 (RemoteAddr (ic_addr incoming)) tk))
                    (with_clients clients (set_chan (ic_tx incoming) ChanSent s))
             else with_clients clients s
         | (None, clients) \<Rightarrow> set_task c (tk\<lparr>tk_status := Finished\<rparr>) (with_clients clients s))
    | TcpConnectionRequest session \<Rightarrow>
        (case insert_connection_request now (ts_next s) session (tk_addr tk) (ts_clients s) of
           (Some (rx, dst_addr), clients) \<Rightarrow>
             let s = (with_clients clients s)\<lparr>ts_next := ts_next s + 1\<rparr>
             in if ok\<^sub>1
                then set_task c (send_msg ok\<^sub>1 (RemoteAddr dst_addr) tk\<lparr>tk_status :=
                       Awaiting rx session (now' + from_millis CONNECTION_REQUEST_TIMEOUT_MS)\<rparr>) s
                else set_task c (send_msg ok\<^sub>1 (RemoteAddr dst_addr) tk) (set_chan rx RxDropped s)
         | (None, clients) \<Rightarrow> set_task c (tk\<lparr>tk_status := Finished\<rparr>) (with_clients clients s)))"

subsection \<open>Steps\<close>

inductive tcp_step :: "tcp_server \<Rightarrow> tcp_server \<Rightarrow> bool" where
  accept: "ts_tasks s c = None \<Longrightarrow> tcp_step s (set_task c (new_task addr) s)"
| cleanup: "ts_tasks s c = Some tk \<Longrightarrow> tk_status tk = Looping \<Longrightarrow>
    tcp_step s (with_clients (poll_update now (ts_clients s)) s)"
| message: "ts_tasks s c = Some tk \<Longrightarrow> tk_status tk = Looping \<Longrightarrow> now \<le> now' \<Longrightarrow>
    tcp_step s (handle_msg now now' ok\<^sub>1 ok\<^sub>2 msg c tk s)"
| closed: "ts_tasks s c = Some tk \<Longrightarrow> tk_status tk = Looping \<Longrightarrow>
    tcp_step s (set_task c (tk\<lparr>tk_status := Finished\<rparr>) s)"
| confirmed: "ts_tasks s c = Some tk \<Longrightarrow> tk_status tk = Awaiting i session deadline \<Longrightarrow> ts_chans s i = ChanSent \<Longrightarrow>
    tcp_step s (set_task c (send_msg ok (StartCountdown (from_millis SCHEDULE_CON_MS))
      (tk\<lparr>tk_status := Removing session\<rparr>)) s)"
| sender_gone: "ts_tasks s c = Some tk \<Longrightarrow> tk_status tk = Awaiting i session deadline \<Longrightarrow> ts_chans s i = TxDropped \<Longrightarrow>
    tcp_step s (set_task c (tk\<lparr>tk_status := Removing session\<rparr>) s)"
| timed_out: "ts_tasks s c = Some tk \<Longrightarrow> tk_status tk = Awaiting i session deadline \<Longrightarrow> ts_chans s i = ChanOpen \<Longrightarrow>
    deadline \<le> now \<Longrightarrow> tcp_step s (set_task c (tk\<lparr>tk_status := Removing session\<rparr>) (set_chan i RxDropped s))"
| remove: "ts_tasks s c = Some tk \<Longrightarrow> tk_status tk = Removing session \<Longrightarrow>
    tcp_step s (set_task c (tk\<lparr>tk_status := Looping\<rparr>)
      (with_clients (remove_connection_request session (ts_clients s)) s))"

inductive tcp_reachable :: "tcp_server \<Rightarrow> bool" where
  start: "tcp_reachable tcp_server_new"
| step: "tcp_reachable s \<Longrightarrow> tcp_step s s' \<Longrightarrow> tcp_reachable s'"

inductive_cases tcp_stepE: "tcp_step s s'"

end
