(* ===== verification/Tcp_Invariant.thy ===== *)
theory Tcp_Invariant
  imports Tcp_Server "HOL-Library.Sublist"
begin

text \<open>
  What holds in every reachable state of the TCP rendezvous server (\<open>Tcp_Server\<close>): an invariant of
  the shared state, the channels and the tasks, one lemma for each of its parts and each kind of
  step.
\<close>

subsection \<open>The invariant\<close>

definition awaits :: "tcp_server \<Rightarrow> nat \<Rightarrow> chan \<Rightarrow> u64 \<Rightarrow> instant \<Rightarrow> bool" where
  "awaits s c i session deadline \<longleftrightarrow> (\<exists>tk. ts_tasks s c = Some tk \<and> tk_status tk = Awaiting i session deadline)"

definition at_addr :: "tcp_server \<Rightarrow> nat \<Rightarrow> socket_addr \<Rightarrow> bool" where
  "at_addr s c a \<longleftrightarrow> (\<exists>tk. ts_tasks s c = Some tk \<and> tk_addr tk = a)"

abbreviation pending :: "tcp_server \<Rightarrow> u64 \<Rightarrow> incoming_connection option" where
  "pending s \<equiv> pending_of (ts_clients s)"

text \<open>Pending requests hold the senders of distinct channels in use, left by some task.\<close>

definition request_ok :: "tcp_server \<Rightarrow> u64 \<Rightarrow> incoming_connection \<Rightarrow> bool" where
  "request_ok s ses ic \<longleftrightarrow> ic_tx ic < ts_next s \<and> ts_chans s (ic_tx ic) \<in> {ChanOpen, RxDropped}
     \<and> (\<exists>d. at_addr s d (ic_addr ic))
     \<and> (\<forall>ses' ic'. pending s ses' = Some ic' \<and> ic_tx ic' = ic_tx ic \<longrightarrow> ses' = ses)"

definition pending_ok :: "tcp_server \<Rightarrow> bool" where
  "pending_ok s \<longleftrightarrow> (\<forall>ses ic. pending s ses = Some ic \<longrightarrow> request_ok s ses ic)"

text \<open>The request that a task waits with is pending for \<open>session\<close>, and expires half a second before the wait.\<close>

definition requested :: "tcp_server \<Rightarrow> chan \<Rightarrow> u64 \<Rightarrow> instant \<Rightarrow> socket_addr \<Rightarrow> bool" where
  "requested s i session deadline a \<longleftrightarrow> (\<exists>ic. pending s session = Some ic \<and> ic_tx ic = i \<and> ic_addr ic = a
     \<and> ic_tm ic + from_millis 500 \<le> deadline)"

text \<open>A waiting task's own request is pending, was confirmed to a service, or was dropped.\<close>

definition wait_ok :: "tcp_server \<Rightarrow> nat \<Rightarrow> chan \<Rightarrow> u64 \<Rightarrow> instant \<Rightarrow> socket_addr \<Rightarrow> bool" where
  "wait_ok s c i session deadline a \<longleftrightarrow> i < ts_next s \<and> ts_chans s i \<noteq> RxDropped
     \<and> (ts_chans s i = ChanOpen \<longrightarrow> requested s i session deadline a)
     \<and> (\<forall>d ses' dl'. awaits s d i ses' dl' \<longrightarrow> d = c)"

definition awaits_ok :: "tcp_server \<Rightarrow> bool" where
  "awaits_ok s \<longleftrightarrow> (\<forall>c i ses dl a. awaits s c i ses dl \<and> at_addr s c a \<longrightarrow> wait_ok s c i ses dl a)"

text \<open>An open channel in use has its receiver; unused channels are open.\<close>

definition open_ok :: "tcp_server \<Rightarrow> bool" where
  "open_ok s \<longleftrightarrow> (\<forall>i. ts_chans s i = ChanOpen \<longrightarrow> i < ts_next s \<longrightarrow> (\<exists>c ses dl. awaits s c i ses dl))
     \<and> (\<forall>i. ts_next s \<le> i \<longrightarrow> ts_chans s i = ChanOpen)"

definition tcp_inv :: "tcp_server \<Rightarrow> bool" where
  "tcp_inv s \<longleftrightarrow> tcp_ok (ts_clients s) \<and> pending_ok s \<and> awaits_ok s \<and> open_ok s"

lemma tcp_invI:
  "tcp_ok (ts_clients s) \<Longrightarrow> pending_ok s \<Longrightarrow> awaits_ok s \<Longrightarrow> open_ok s \<Longrightarrow> tcp_inv s"
  by (simp add: tcp_inv_def)

lemma tcp_inv_clients: "tcp_inv s \<Longrightarrow> tcp_ok (ts_clients s)"
  by (simp add: tcp_inv_def)

lemma pending_request: "tcp_inv s \<Longrightarrow> pending s ses = Some ic \<Longrightarrow> request_ok s ses ic"
  by (simp add: tcp_inv_def pending_ok_def)

lemma pending_in_use: "tcp_inv s \<Longrightarrow> pending s ses = Some ic \<Longrightarrow> ic_tx ic < ts_next s"
  using pending_request unfolding request_ok_def by blast

lemma pending_session:
  "tcp_inv s \<Longrightarrow> pending s ses = Some ic \<Longrightarrow> pending s ses' = Some ic' \<Longrightarrow> ic_tx ic' = ic_tx ic \<Longrightarrow> ses' = ses"
  using pending_request unfolding request_ok_def by blast

lemma waiting: "tcp_inv s \<Longrightarrow> awaits s c i ses dl \<Longrightarrow> at_addr s c a \<Longrightarrow> wait_ok s c i ses dl a"
  unfolding tcp_inv_def awaits_ok_def by blast

lemma awaits_at: "awaits s c i ses dl \<Longrightarrow> \<exists>a. at_addr s c a"
  by (auto simp: awaits_def at_addr_def)

lemma awaits_in_use: "tcp_inv s \<Longrightarrow> awaits s c i ses dl \<Longrightarrow> i < ts_next s"
  using waiting awaits_at unfolding wait_ok_def by blast

lemma awaits_unique: "tcp_inv s \<Longrightarrow> awaits s c i ses dl \<Longrightarrow> awaits s d i ses' dl' \<Longrightarrow> d = c"
  using waiting awaits_at unfolding wait_ok_def by metis

lemma open_awaited: "tcp_inv s \<Longrightarrow> ts_chans s i = ChanOpen \<Longrightarrow> i < ts_next s \<Longrightarrow> \<exists>c ses dl. awaits s c i ses dl"
  unfolding tcp_inv_def open_ok_def by blast

lemma unused_open: "tcp_inv s \<Longrightarrow> ts_next s \<le> i \<Longrightarrow> ts_chans s i = ChanOpen"
  unfolding tcp_inv_def open_ok_def by blast

lemma tcp_inv_new: "tcp_inv tcp_server_new"
  by (rule tcp_invI)
    (simp_all add: tcp_server_new_def pending_ok_def awaits_ok_def open_ok_def awaits_def
      pending_of_def tcp_state_new_def tcp_ok_def hm_ok_def)

lemma set_held: "tcp_ok clients \<Longrightarrow> i \<in> set (held clients) \<longleftrightarrow> (\<exists>ses ic. pending_of clients ses = Some ic \<and> ic_tx ic = i)"
proof -
  assume ok: "tcp_ok clients"
  have "i \<in> set (held clients) \<longleftrightarrow> (\<exists>c \<in> set (hm_values clients). \<exists>ic. pending_connection c = Some ic \<and> ic_tx ic = i)"
    by (force simp: held_def List.map_filter_def image_iff)
  also have "\<dots> \<longleftrightarrow> (\<exists>ses c ic. hm_get clients ses = Some c \<and> pending_connection c = Some ic \<and> ic_tx ic = i)"
    unfolding Bex_def set_hm_values [OF tcp_okD(1) [OF ok]] by blast
  also have "\<dots> \<longleftrightarrow> (\<exists>ses ic. pending_of clients ses = Some ic \<and> ic_tx ic = i)"
    by (fastforce simp: pending_of_def split: option.splits)
  finally show ?thesis .
qed

lemma held_in_use: "tcp_inv s \<Longrightarrow> i \<in> set (held (ts_clients s)) \<Longrightarrow> i < ts_next s"
  using pending_in_use by (auto simp: set_held [OF tcp_inv_clients])

subsection \<open>Steps that only let go of requests\<close>

definition letting_go :: "tcp_server \<Rightarrow> tcp_state \<Rightarrow> bool" where
  "letting_go s clients \<longleftrightarrow> tcp_inv s \<and> tcp_ok clients
     \<and> (\<forall>ses ic. pending_of clients ses = Some ic \<longrightarrow> pending s ses = Some ic)"

lemma letting_goI:
  assumes "tcp_inv s" and "tcp_ok clients"
    and "\<And>ses ic. pending_of clients ses = Some ic \<Longrightarrow> pending s ses = Some ic"
  shows "letting_go s clients"
  using assms by (simp add: letting_go_def)

lemma with_clients_sel [simp]:
  "ts_clients (with_clients clients s) = clients" "ts_next (with_clients clients s) = ts_next s"
  "ts_tasks (with_clients clients s) = ts_tasks s"
  "awaits (with_clients clients s) = awaits s" "at_addr (with_clients clients s) = at_addr s"
  by (auto simp: with_clients_def awaits_def at_addr_def fun_eq_iff)

lemma with_clients_chans:
  "ts_chans (with_clients clients s) i =
    (if i \<in> set (held (ts_clients s)) \<and> i \<notin> set (held clients) \<and> ts_chans s i = ChanOpen then TxDropped else ts_chans s i)"
  by (simp add: with_clients_def)

lemma with_clients_still:
  "ts_chans (with_clients clients s) i \<noteq> TxDropped \<Longrightarrow> ts_chans s i = ts_chans (with_clients clients s) i"
  by (auto simp: with_clients_chans split: if_splits)

lemma with_clients_requested:
  assumes "letting_go s clients" and "requested s i ses dl a" and "ts_chans (with_clients clients s) i = ChanOpen"
  shows "requested (with_clients clients s) i ses dl a"
proof -
  from assms(1) have inv: "tcp_inv s" and ok: "tcp_ok clients"
    and less: "pending_of clients ses = Some ic \<Longrightarrow> pending s ses = Some ic" for ses ic by (auto simp: letting_go_def)
  from assms(2) obtain ic where ic: "pending s ses = Some ic" "ic_tx ic = i" "ic_addr ic = a"
    "ic_tm ic + from_millis 500 \<le> dl" unfolding requested_def by blast
  then have "i \<in> set (held (ts_clients s))" unfolding set_held [OF tcp_inv_clients [OF inv]] by blast
  with assms(3) have "i \<in> set (held clients)" by (simp add: with_clients_chans split: if_splits)
  then obtain ses' ic' where p: "pending_of clients ses' = Some ic'" "ic_tx ic' = i" by (auto simp: set_held [OF ok])
  then have "ses' = ses" using pending_session [OF inv ic(1) less [OF p(1)]] ic(2) by simp
  with p less [of ses ic'] ic(1) have "pending_of clients ses = Some ic" by simp
  with ic show ?thesis by (auto simp: requested_def)
qed

lemma tcp_inv_with_clients:
  assumes "letting_go s clients"
  shows "tcp_inv (with_clients clients s)"
proof (rule tcp_invI)
  let ?s = "with_clients clients s"
  from assms have inv: "tcp_inv s" and ok: "tcp_ok clients"
    and less: "pending_of clients ses = Some ic \<Longrightarrow> pending s ses = Some ic" for ses ic by (auto simp: letting_go_def)
  have keep: "ts_chans ?s (ic_tx ic) = ts_chans s (ic_tx ic)" if "pending_of clients ses = Some ic" for ses ic
    using that by (auto simp: with_clients_chans set_held [OF ok])
  note still = with_clients_still [of clients s]
  show "tcp_ok (ts_clients ?s)" using ok by simp
  show "pending_ok ?s"
    unfolding pending_ok_def with_clients_sel
    using pending_request [OF inv less] less keep by (simp add: request_ok_def)
  show "awaits_ok ?s"
    unfolding awaits_ok_def wait_ok_def with_clients_sel
    using waiting [OF inv] with_clients_requested [OF assms] still unfolding wait_ok_def
    by (metis chan_state.distinct(3,7,11))
  show "open_ok ?s"
    unfolding open_ok_def with_clients_sel
    using open_awaited [OF inv] still unused_open [OF inv] held_in_use [OF inv]
    by (metis chan_state.distinct(3) not_less with_clients_chans)
qed

subsection \<open>Steps of one task\<close>

text \<open>A task keeps its address and what it was sent, and a dead one stays dead.\<close>

definition grows :: "tcp_task option \<Rightarrow> tcp_task \<Rightarrow> bool" where
  "grows old tk' \<longleftrightarrow> (case old of
      None \<Rightarrow> tk_sent tk' = []
    | Some tk \<Rightarrow> tk_addr tk' = tk_addr tk \<and> prefix (tk_sent tk) (tk_sent tk')
        \<and> (tk_status tk = Crashed \<longrightarrow> tk_status tk' = Crashed))"

text \<open>Where the tasks are and which of them wait, once task \<open>c\<close> has become \<open>tk\<close>.\<close>

lemma task_views:
  assumes "ts_tasks s' = (ts_tasks s)(c \<mapsto> tk)" and "grows (ts_tasks s c) tk"
  shows "at_addr s d a \<Longrightarrow> at_addr s' d a"
    and "at_addr s' d a \<Longrightarrow> d \<noteq> c \<Longrightarrow> at_addr s d a"
    and "awaits s' d i ses dl \<longleftrightarrow> (if d = c then tk_status tk = Awaiting i ses dl else awaits s d i ses dl)"
  using assms by (auto simp: at_addr_def awaits_def grows_def split: if_splits)

text \<open>Task \<open>c\<close> becomes \<open>tk\<close> and no longer waits; it may drop the receiver of the channel it waited on.\<close>

definition update_task :: "nat \<Rightarrow> tcp_task \<Rightarrow> (chan \<Rightarrow> chan_state) \<Rightarrow> tcp_server \<Rightarrow> tcp_server" where
  "update_task c tk chans s = s\<lparr>ts_tasks := (ts_tasks s)(c \<mapsto> tk), ts_chans := chans\<rparr>"

lemma update_task_sel [simp]:
  "ts_clients (update_task c tk chans s) = ts_clients s" "ts_next (update_task c tk chans s) = ts_next s"
  "ts_chans (update_task c tk chans s) = chans" "ts_tasks (update_task c tk chans s) = (ts_tasks s)(c \<mapsto> tk)"
  by (simp_all add: update_task_def)

definition updating :: "tcp_server \<Rightarrow> nat \<Rightarrow> tcp_task \<Rightarrow> (chan \<Rightarrow> chan_state) \<Rightarrow> bool" where
  "updating s c tk chans \<longleftrightarrow> tcp_inv s \<and> grows (ts_tasks s c) tk
     \<and> (\<forall>i ses dl. tk_status tk \<noteq> Awaiting i ses dl)
     \<and> (\<forall>i. chans i = ts_chans s i
          \<or> chans i = RxDropped \<and> ts_chans s i = ChanOpen \<and> (\<exists>ses dl. awaits s c i ses dl))
     \<and> (\<forall>i ses dl. awaits s c i ses dl \<longrightarrow> chans i \<noteq> ChanOpen)"

lemma updating_awaits:
  assumes "updating s c tk chans"
  shows "awaits (update_task c tk chans s) d i ses dl \<longleftrightarrow> d \<noteq> c \<and> awaits s d i ses dl"
  using assms task_views(3) [of "update_task c tk chans s" s c tk d i ses dl] by (simp add: updating_def)

lemma updating_chans:
  assumes "updating s c tk chans"
  shows "chans i = ts_chans s i \<or> chans i = RxDropped \<and> ts_chans s i = ChanOpen \<and> (\<exists>ses dl. awaits s c i ses dl)"
  using assms by (simp add: updating_def)

lemma update_pending_ok:
  assumes "updating s c tk chans"
  shows "pending_ok (update_task c tk chans s)"
  unfolding pending_ok_def update_task_sel
proof (intro allI impI)
  from assms have inv: "tcp_inv s" and g: "grows (ts_tasks s c) tk" by (simp_all add: updating_def)
  fix ses ic assume "pending s ses = Some ic"
  note r = pending_request [OF inv this, unfolded request_ok_def]
  then have "chans (ic_tx ic) \<in> {ChanOpen, RxDropped}" using updating_chans [OF assms, of "ic_tx ic"] by auto
  with r task_views(1) [of "update_task c tk chans s" s c tk, OF _ g] show "request_ok (update_task c tk chans s) ses ic"
    unfolding request_ok_def update_task_sel by blast
qed

lemma update_awaits_ok:
  assumes "updating s c tk chans"
  shows "awaits_ok (update_task c tk chans s)"
  unfolding awaits_ok_def updating_awaits [OF assms]
proof (intro allI impI, elim conjE)
  let ?s = "update_task c tk chans s"
  from assms have inv: "tcp_inv s" and g: "grows (ts_tasks s c) tk" by (simp_all add: updating_def)
  note v = task_views [of ?s s c tk, OF _ g, simplified]
  fix d i ses dl a
  assume d: "d \<noteq> c" "awaits s d i ses dl" "at_addr ?s d a"
  then have w: "wait_ok s d i ses dl a" using waiting [OF inv d(2)] v(2) by blast
  have "chans i = ts_chans s i" using updating_chans [OF assms, of i] awaits_unique [OF inv d(2)] d(1) by blast
  with w d(1) show "wait_ok ?s d i ses dl a"
    unfolding wait_ok_def updating_awaits [OF assms] requested_def by simp
qed

lemma update_open_ok:
  assumes "updating s c tk chans"
  shows "open_ok (update_task c tk chans s)"
  unfolding open_ok_def updating_awaits [OF assms] update_task_sel
proof (intro conjI allI impI)
  from assms have inv: "tcp_inv s" and own: "awaits s c i ses dl \<Longrightarrow> chans i \<noteq> ChanOpen" for i ses dl
    unfolding updating_def by blast+
  fix i
  { assume i: "chans i = ChanOpen" "i < ts_next s"
    then have "ts_chans s i = ChanOpen" using updating_chans [OF assms, of i] by auto
    from open_awaited [OF inv this i(2)] obtain d ses dl where "awaits s d i ses dl" by blast
    moreover from this own i(1) have "d \<noteq> c" by metis
    ultimately show "\<exists>d ses dl. d \<noteq> c \<and> awaits s d i ses dl" by blast }
  { assume i: "ts_next s \<le> i"
    then have "\<not> awaits s c i ses dl" for ses dl using awaits_in_use [OF inv] by fastforce
    with unused_open [OF inv i] updating_chans [OF assms, of i] show "chans i = ChanOpen" by auto }
qed

lemma tcp_inv_update_task:
  assumes "updating s c tk chans"
  shows "tcp_inv (update_task c tk chans s)"
proof (rule tcp_invI)
  from assms have "tcp_inv s" by (simp add: updating_def)
  then show "tcp_ok (ts_clients (update_task c tk chans s))" by (simp add: tcp_inv_clients)
qed (use assms in \<open>simp_all add: update_pending_ok update_awaits_ok update_open_ok\<close>)

lemma set_task_update: "set_task c tk s = update_task c tk (ts_chans s) s"
  by (simp add: set_task_def update_task_def)

lemma tcp_inv_set_task:
  assumes "tcp_inv s" and "grows (ts_tasks s c) tk" and "\<And>i ses dl. tk_status tk \<noteq> Awaiting i ses dl"
    and "\<And>i ses dl. awaits s c i ses dl \<Longrightarrow> ts_chans s i \<noteq> ChanOpen"
  shows "tcp_inv (set_task c tk s)"
  unfolding set_task_update by (rule tcp_inv_update_task) (use assms in \<open>simp add: updating_def\<close>)

text \<open>A dropped sender that had been sent to.\<close>

lemma tcp_inv_confirm:
  assumes inv: "tcp_inv s" and i: "ts_chans s i = TxDropped"
  shows "tcp_inv (set_chan i ChanSent s)"
proof (rule tcp_invI)
  let ?s = "set_chan i ChanSent s"
  have same [simp]: "ts_clients ?s = ts_clients s" "ts_next ?s = ts_next s" "ts_tasks ?s = ts_tasks s"
    "awaits ?s = awaits s" "at_addr ?s = at_addr s"
    by (auto simp: set_chan_def awaits_def at_addr_def fun_eq_iff)
  have ch: "ts_chans ?s j = (if j = i then ChanSent else ts_chans s j)" for j by (simp add: set_chan_def)
  show "tcp_ok (ts_clients ?s)" using tcp_inv_clients [OF inv] by simp
  have "request_ok ?s ses ic" if "pending s ses = Some ic" for ses ic
    using pending_request [OF inv that] i by (auto simp: request_ok_def ch)
  then show "pending_ok ?s" by (simp add: pending_ok_def)
  have "wait_ok ?s c j ses dl a" if "awaits s c j ses dl" "at_addr s c a" for c j ses dl a
    using waiting [OF inv that] i by (auto simp: wait_ok_def requested_def ch)
  then show "awaits_ok ?s" by (simp add: awaits_ok_def)
  show "open_ok ?s"
    using open_awaited [OF inv] unused_open [OF inv] i by (auto simp: open_ok_def ch)
qed

subsection \<open>A new request\<close>

text \<open>
  The step in two halves: the request that was pending is let go of, then the new one is
  entered, with a new channel whose receiver the task holds, or has lost already because it
  died.
\<close>

definition enter_request ::
  "nat \<Rightarrow> tcp_task \<Rightarrow> u64 \<Rightarrow> incoming_connection \<Rightarrow> tcp_state \<Rightarrow> chan_state \<Rightarrow> tcp_server \<Rightarrow> tcp_server" where
  "enter_request c tk session ic clients v s = s\<lparr>ts_clients := clients, ts_next := Suc (ts_next s),
     ts_chans := (ts_chans s)(ts_next s := v), ts_tasks := (ts_tasks s)(c \<mapsto> tk)\<rparr>"

lemma enter_request_sel [simp]:
  "ts_clients (enter_request c tk session ic clients v s) = clients"
  "ts_next (enter_request c tk session ic clients v s) = Suc (ts_next s)"
  "ts_chans (enter_request c tk session ic clients v s) = (ts_chans s)(ts_next s := v)"
  "ts_tasks (enter_request c tk session ic clients v s) = (ts_tasks s)(c \<mapsto> tk)"
  by (simp_all add: enter_request_def)

definition entering ::
  "tcp_server \<Rightarrow> nat \<Rightarrow> tcp_task \<Rightarrow> tcp_task \<Rightarrow> u64 \<Rightarrow> incoming_connection \<Rightarrow> tcp_state \<Rightarrow> chan_state \<Rightarrow> instant \<Rightarrow> bool" where
  "entering s c tk tk' session ic clients v dl \<longleftrightarrow> tcp_inv s \<and> ts_tasks s c = Some tk \<and> tk_status tk = Looping
     \<and> grows (Some tk) tk'
     \<and> pending s session = None \<and> tcp_ok clients
     \<and> (\<forall>ses. pending_of clients ses = (if ses = session then Some ic else pending s ses))
     \<and> ic_tx ic = ts_next s \<and> ic_addr ic = tk_addr tk \<and> ic_tm ic + from_millis 500 \<le> dl
     \<and> (v = ChanOpen \<and> tk_status tk' = Awaiting (ts_next s) session dl \<or> v = RxDropped \<and> tk_status tk' = Crashed)"

lemma entering_views:
  assumes "entering s c tk tk' session ic clients v dl"
  defines "s' \<equiv> enter_request c tk' session ic clients v s"
  shows "at_addr s d a \<Longrightarrow> at_addr s' d a"
    and "at_addr s' d a \<Longrightarrow> d \<noteq> c \<Longrightarrow> at_addr s d a" and "at_addr s' c a \<longleftrightarrow> a = tk_addr tk"
    and "awaits s' d i ses dl' \<longleftrightarrow>
      (if d = c then v = ChanOpen \<and> i = ts_next s \<and> ses = session \<and> dl' = dl else awaits s d i ses dl')"
proof -
  have g: "grows (ts_tasks s c) tk'" and at: "tk_addr tk' = tk_addr tk"
    and v: "v = ChanOpen \<and> tk_status tk' = Awaiting (ts_next s) session dl \<or> v = RxDropped \<and> tk_status tk' = Crashed"
    using assms(1) by (auto simp: entering_def grows_def)
  note t = task_views [of s' s c tk', OF _ g]
  show "at_addr s d a \<Longrightarrow> at_addr s' d a" "at_addr s' d a \<Longrightarrow> d \<noteq> c \<Longrightarrow> at_addr s d a"
    using t(1,2) by (simp_all add: s'_def)
  show "at_addr s' c a \<longleftrightarrow> a = tk_addr tk" using at by (auto simp: s'_def at_addr_def)
  show "awaits s' d i ses dl' \<longleftrightarrow>
      (if d = c then v = ChanOpen \<and> i = ts_next s \<and> ses = session \<and> dl' = dl else awaits s d i ses dl')"
    using t(3) [of d i ses dl'] v by (auto simp: s'_def)
qed

lemma enter_pending_ok:
  assumes e: "entering s c tk tk' session ic clients v dl"
  shows "pending_ok (enter_request c tk' session ic clients v s)"
  unfolding pending_ok_def enter_request_sel
proof (intro allI impI)
  let ?s = "enter_request c tk' session ic clients v s"
  from e have inv: "tcp_inv s" and tx: "ic_tx ic = ts_next s" and v: "v \<in> {ChanOpen, RxDropped}"
    and p: "pending_of clients ses = (if ses = session then Some ic else pending s ses)" for ses
    by (auto simp: entering_def)
  fix ses ic' assume ic': "pending_of clients ses = Some ic'"
  show "request_ok ?s ses ic'"
  proof (cases "ses = session")
    case True
    with ic' p have "ic' = ic" by simp
    moreover have "at_addr ?s c (ic_addr ic)" using e entering_views(3) [OF e] by (simp add: entering_def)
    ultimately show ?thesis
      using True tx v pending_in_use [OF inv] by (fastforce simp: request_ok_def p split: if_splits)
  next
    case False
    with ic' p have o: "pending s ses = Some ic'" by simp
    from pending_request [OF inv o] pending_in_use [OF inv o] False tx entering_views(1) [OF e]
    show ?thesis by (auto simp: request_ok_def p split: if_splits)
  qed
qed

lemma enter_awaits_ok:
  assumes e: "entering s c tk tk' session ic clients v dl"
  shows "awaits_ok (enter_request c tk' session ic clients v s)"
  unfolding awaits_ok_def
proof (intro allI impI, elim conjE)
  let ?s = "enter_request c tk' session ic clients v s"
  from e have inv: "tcp_inv s" and ic: "ic_tx ic = ts_next s" "ic_addr ic = tk_addr tk" "ic_tm ic + from_millis 500 \<le> dl"
    and none: "pending s session = None" and p: "pending_of clients ses = (if ses = session then Some ic else pending s ses)" for ses
    by (auto simp: entering_def)
  note v = entering_views [OF e]
  have fresh: "\<not> awaits s d (ts_next s) ses dl'" for d ses dl' using awaits_in_use [OF inv] by blast
  fix d i ses dl' a
  assume d: "awaits ?s d i ses dl'" "at_addr ?s d a"
  show "wait_ok ?s d i ses dl' a"
  proof (cases "d = c")
    case True
    with d v(3,4) have n: "v = ChanOpen" "i = ts_next s" "ses = session" "dl' = dl" "a = tk_addr tk" by auto
    have "d' = d" if "awaits ?s d' i ses' dl''" for d' ses' dl''
      using that True n(2) fresh by (cases "d' = c") (simp_all add: v(4))
    then show ?thesis
      unfolding wait_ok_def enter_request_sel requested_def using n ic p [of session] by auto
  next
    case False
    with d v(2,4) have w: "wait_ok s d i ses dl' a" and a: "awaits s d i ses dl'" using waiting [OF inv] by auto
    have "i \<noteq> ts_next s" using awaits_in_use [OF inv a] by simp
    moreover have "requested ?s i ses dl' a" if "requested s i ses dl' a"
      using that none by (auto simp: requested_def p)
    ultimately show ?thesis using w by (auto simp: wait_ok_def v(4) split: if_splits)
  qed
qed

lemma enter_open_ok:
  assumes e: "entering s c tk tk' session ic clients v dl"
  shows "open_ok (enter_request c tk' session ic clients v s)"
  unfolding open_ok_def enter_request_sel entering_views(4) [OF e]
proof (intro conjI allI impI)
  from e have inv: "tcp_inv s" and tk: "ts_tasks s c = Some tk" "tk_status tk = Looping" by (auto simp: entering_def)
  fix i
  { assume i: "((ts_chans s)(ts_next s := v)) i = ChanOpen" "i < Suc (ts_next s)"
    show "\<exists>d ses dl'. if d = c then v = ChanOpen \<and> i = ts_next s \<and> ses = session \<and> dl' = dl else awaits s d i ses dl'"
    proof (cases "i = ts_next s")
      case True
      with i(1) show ?thesis by (intro exI [of _ c] exI [of _ session] exI [of _ dl]) simp
    next
      case False
      with i open_awaited [OF inv, of i] obtain d ses dl' where d: "awaits s d i ses dl'" by auto
      with tk have "d \<noteq> c" by (auto simp: awaits_def)
      with d show ?thesis by auto
    qed }
  { assume "Suc (ts_next s) \<le> i"
    with unused_open [OF inv, of i] show "((ts_chans s)(ts_next s := v)) i = ChanOpen" by simp }
qed

lemma tcp_inv_enter_request:
  assumes e: "entering s c tk tk' session ic clients v dl"
  shows "tcp_inv (enter_request c tk' session ic clients v s)"
proof (rule tcp_invI)
  show "tcp_ok (ts_clients (enter_request c tk' session ic clients v s))" using e by (simp add: entering_def)
qed (use e in \<open>simp_all add: enter_pending_ok enter_awaits_ok enter_open_ok\<close>)

subsection \<open>Every step keeps the invariant\<close>

lemma send_msg_status [simp]:
  "tk_status (send_msg ok m tk) = (if tk_status tk = Crashed \<or> \<not> ok then Crashed else tk_status tk)"
  by (simp add: send_msg_def)

lemma send_msg_addr [simp]: "tk_addr (send_msg ok m tk) = tk_addr tk"
  by (simp add: send_msg_def)

lemma send_msg_sent: "tk_sent (send_msg ok m tk) = tk_sent tk @ (if tk_status tk \<noteq> Crashed \<and> ok then [m] else [])"
  by (simp add: send_msg_def)

lemma grows_send_msg: "grows (Some tk) (send_msg ok m tk)"
  by (auto simp: grows_def send_msg_sent)

lemma grows_trans: "grows (Some tk) tk' \<Longrightarrow> grows (Some tk') tk'' \<Longrightarrow> grows (Some tk) tk''"
  by (auto simp: grows_def)

lemma grows_status: "tk_status tk \<noteq> Crashed \<Longrightarrow> grows (Some tk) (tk\<lparr>tk_status := v\<rparr>)"
  by (simp add: grows_def)

text \<open>A task that is not waiting may do anything else.\<close>

lemma tcp_inv_idle_task:
  assumes inv: "tcp_inv s" and tk: "ts_tasks s c = Some tk" and g: "grows (Some tk) tk'"
    and old: "\<And>i ses dl. tk_status tk = Awaiting i ses dl \<Longrightarrow> ts_chans s i \<noteq> ChanOpen"
    and new: "\<And>i ses dl. tk_status tk' \<noteq> Awaiting i ses dl"
  shows "tcp_inv (set_task c tk' s)"
proof (rule tcp_inv_set_task [OF inv _ new])
  show "grows (ts_tasks s c) tk'" using g tk by simp
  show "ts_chans s i \<noteq> ChanOpen" if "awaits s c i ses dl" for i ses dl
    using that old tk by (auto simp: awaits_def)
qed

text \<open>Announcements.\<close>

lemma announcement_lets_go:
  assumes inv: "tcp_inv s" and "announce_check now now' a addr (ts_clients s) = (r, clients)"
  shows "letting_go s clients"
proof -
  note ok = tcp_inv_clients [OF inv]
  have "letting_go s (snd (announce_check now now' a addr (ts_clients s)))"
    by (rule letting_goI [OF inv board.good(1) [OF ok] board.announce_lets_go [OF ok]])
  with assms(2) show ?thesis by simp
qed

lemma announce_takes:
  assumes inv: "tcp_inv s" and ann: "announce_check now now' a addr (ts_clients s) = (Some ic, clients)"
  shows "pending s (ad_session a) = Some ic" and "now' < ic_tm ic"
    and "ts_chans s (ic_tx ic) = ChanOpen \<Longrightarrow> ts_chans (with_clients clients s) (ic_tx ic) = TxDropped"
proof -
  let ?ses = "ad_session a"
  note ok = tcp_inv_clients [OF inv]
  have c: "clients = snd (announce_check now now' a addr (ts_clients s))" using ann by simp
  have l: "live_pending now' (ts_clients s) ?ses = Some ic" using ann by (simp add: announce_check_eq)
  then show live: "pending s ?ses = Some ic" and "now' < ic_tm ic"
    by (auto simp: alive_def split: option.splits if_splits)
  have gone: "pending_of clients ses \<noteq> Some ic'" if "ic_tx ic' = ic_tx ic" for ses ic'
  proof
    assume p: "pending_of clients ses = Some ic'"
    with l have "pending s ses = Some ic'" "ses \<noteq> ?ses"
      using pending_of_announce_check [OF ok, of now now' a addr ses] by (auto simp: c split: if_splits)
    with pending_session [OF inv live] that show False by blast
  qed
  have "tcp_ok clients" using announcement_lets_go [OF inv ann] by (simp add: letting_go_def)
  then show "ts_chans s (ic_tx ic) = ChanOpen \<Longrightarrow> ts_chans (with_clients clients s) (ic_tx ic) = TxDropped"
    using live gone by (auto simp: with_clients_chans set_held [OF ok] set_held)
qed

lemma tcp_inv_announce_some:
  assumes inv: "tcp_inv s" and tk: "ts_tasks s c = Some tk" "tk_status tk = Looping"
    and ann: "announce_check now now' a addr (ts_clients s) = (Some ic, clients)"
    and op: "ts_chans s (ic_tx ic) = ChanOpen"
  shows "tcp_inv (set_task c (send_msg ok\<^sub>2 (StartCountdown (from_millis SCHEDULE_CON_MS))
      (send_msg ok\<^sub>1 (RemoteAddr (ic_addr ic)) tk)) (with_clients clients (set_chan (ic_tx ic) ChanSent s)))"
proof -
  let ?tk = "send_msg ok\<^sub>2 (StartCountdown (from_millis SCHEDULE_CON_MS)) (send_msg ok\<^sub>1 (RemoteAddr (ic_addr ic)) tk)"
  let ?s = "set_task c ?tk (with_clients clients s)" and ?i = "ic_tx ic"
  note live = announce_takes [OF inv ann]
  have "tcp_inv ?s"
    using tcp_inv_with_clients [OF announcement_lets_go [OF inv ann]]
    by (rule tcp_inv_idle_task) (use tk in \<open>auto intro: grows_trans grows_send_msg\<close>)
  moreover have "ts_chans ?s ?i = TxDropped" using live(3) [OF op] by (simp add: set_task_def)
  ultimately have "tcp_inv (set_chan ?i ChanSent ?s)" by (rule tcp_inv_confirm)
  moreover have "set_chan ?i ChanSent ?s = set_task c ?tk (with_clients clients (set_chan ?i ChanSent s))"
    by (auto simp: set_chan_def set_task_def with_clients_def fun_eq_iff)
  ultimately show ?thesis by simp
qed

text \<open>A connection request lets go of the pending one and enters the new one.\<close>

lemma remove_lets_go: "tcp_inv s \<Longrightarrow> letting_go s (remove_connection_request session (ts_clients s))"
  by (rule letting_goI [OF _ board.good(3) [OF tcp_inv_clients] board.withdraw_lets_go [OF tcp_inv_clients]])

definition request_of :: "instant \<Rightarrow> tcp_task \<Rightarrow> tcp_server \<Rightarrow> incoming_connection" where
  "request_of now tk s = \<lparr>ic_tm = now + from_millis (CONNECTION_REQUEST_TIMEOUT_MS - 500), ic_addr = tk_addr tk, ic_tx = ts_next s\<rparr>"

lemma request_of_sel [simp]:
  "ic_tx (request_of now tk s) = ts_next s" "ic_addr (request_of now tk s) = tk_addr tk"
  by (simp_all add: request_of_def)

lemma request_entered:
  fixes now tk
  assumes inv: "tcp_inv s" and client: "hm_get (ts_clients s) session = Some client"
  defines "new \<equiv> hm_insert session (client\<lparr>pending_connection := Some (request_of now tk s)\<rparr>) (ts_clients s)"
  shows "insert_connection_request now (ts_next s) session (tk_addr tk) (ts_clients s) = (Some (ts_next s, kc_addr client), new)"
    and "tcp_ok new"
    and "pending_of new ses = (if ses = session then Some (request_of now tk s) else pending s ses)"
proof -
  note ok = tcp_inv_clients [OF inv]
  show ins: "insert_connection_request now (ts_next s) session (tk_addr tk) (ts_clients s) = (Some (ts_next s, kc_addr client), new)"
    using client by (simp add: insert_connection_request_def new_def request_of_def)
  show "tcp_ok new" "pending_of new ses = (if ses = session then Some (request_of now tk s) else pending s ses)"
    using tcp_ok_insert_request [OF ok, of now "ts_next s" session "tk_addr tk"]
      pending_of_insert_request [OF ok, of now "ts_next s" session "tk_addr tk" ses] client
    by (simp_all add: ins request_of_def)
qed

lemma request_step:
  assumes inv: "tcp_inv s" and client: "hm_get (ts_clients s) session = Some client"
  shows "handle_msg now now' ok\<^sub>1 ok\<^sub>2 (TcpConnectionRequest session) c tk s =
    enter_request c (if ok\<^sub>1 then (send_msg ok\<^sub>1 (RemoteAddr (kc_addr client)) tk)\<lparr>tk_status :=
           Awaiting (ts_next s) session (now' + from_millis CONNECTION_REQUEST_TIMEOUT_MS)\<rparr>
         else send_msg ok\<^sub>1 (RemoteAddr (kc_addr client)) tk)
      session (request_of now tk s)
      (hm_insert session (client\<lparr>pending_connection := Some (request_of now tk s)\<rparr>) (ts_clients s))
      (if ok\<^sub>1 then ChanOpen else RxDropped) (with_clients (remove_connection_request session (ts_clients s)) s)"
proof -
  let ?n = "ts_next s" and ?old = "remove_connection_request session (ts_clients s)"
  note r = request_entered [OF inv client, where now = now and tk = tk] and ok = tcp_inv_clients [OF inv]
  have "i \<in> set (held (hm_insert session (client\<lparr>pending_connection := Some (request_of now tk s)\<rparr>) (ts_clients s)))
      \<longleftrightarrow> i = ?n \<or> i \<in> set (held ?old)" for i
    by (auto simp: set_held [OF r(2)] set_held [OF tcp_ok_remove_request [OF ok]] r(3) pending_of_remove_request [OF ok]
        split: if_splits)
  moreover have "?n \<notin> set (held (ts_clients s))" using held_in_use [OF inv] by blast
  moreover have "ts_chans s ?n = ChanOpen" using unused_open [OF inv] by simp
  ultimately show ?thesis
    by (auto simp: handle_msg_def r(1) enter_request_def with_clients_def set_task_def set_chan_def Let_def fun_eq_iff)
qed

lemma tcp_inv_request:
  assumes inv: "tcp_inv s" and tk: "ts_tasks s c = Some tk" "tk_status tk = Looping" and "now \<le> now'"
  shows "tcp_inv (handle_msg now now' ok\<^sub>1 ok\<^sub>2 (TcpConnectionRequest session) c tk s)"
proof (cases "hm_get (ts_clients s) session")
  case None
  have "with_clients (ts_clients s) s = s"
    by (rule tcp_server.equality) (auto simp: with_clients_def fun_eq_iff)
  moreover have "tcp_inv (set_task c (tk\<lparr>tk_status := Finished\<rparr>) s)"
    using inv tk(1) by (rule tcp_inv_idle_task) (simp_all add: tk(2) grows_status)
  ultimately show ?thesis using None by (simp add: handle_msg_def insert_connection_request_def)
next
  case (Some client)
  let ?s = "with_clients (remove_connection_request session (ts_clients s)) s"
  let ?dl = "now' + from_millis CONNECTION_REQUEST_TIMEOUT_MS" and ?msg = "send_msg ok\<^sub>1 (RemoteAddr (kc_addr client)) tk"
  let ?tk = "if ok\<^sub>1 then ?msg\<lparr>tk_status := Awaiting (ts_next s) session ?dl\<rparr> else ?msg"
  note r = request_entered [OF inv Some, where now = now and tk = tk]
  have "tcp_inv ?s" using remove_lets_go [OF inv] by (rule tcp_inv_with_clients)
  moreover have "grows (Some tk) ?tk" using tk(2) by (auto simp: grows_def send_msg_sent)
  moreover have "ic_tm (request_of now tk s) + from_millis 500 \<le> ?dl"
    using assms(4) by (simp add: request_of_def CONNECTION_REQUEST_TIMEOUT_MS_def time_simps)
  ultimately have "entering ?s c tk ?tk session (request_of now tk s)
      (hm_insert session (client\<lparr>pending_connection := Some (request_of now tk s)\<rparr>) (ts_clients s))
      (if ok\<^sub>1 then ChanOpen else RxDropped) ?dl"
    using tk r(2,3) pending_of_remove_request [OF tcp_inv_clients [OF inv]]
    by (simp add: entering_def)
  then show ?thesis unfolding request_step [OF inv Some] by (rule tcp_inv_enter_request)
qed

lemma tcp_inv_message:
  assumes inv: "tcp_inv s" and tk: "ts_tasks s c = Some tk" "tk_status tk = Looping" and "now \<le> now'"
  shows "tcp_inv (handle_msg now now' ok\<^sub>1 ok\<^sub>2 msg c tk s)"
proof (cases msg)
  case (GetClients app)
  have "tcp_inv (set_task c (send_msg ok\<^sub>1 (Clients (get_clients now app (ts_clients s))) tk) s)"
    using inv tk(1) grows_send_msg
    by (rule tcp_inv_idle_task) (use tk(2) in auto)
  then show ?thesis using GetClients by (simp add: handle_msg_def)
next
  case (TcpConnectionRequest session)
  then show ?thesis using tcp_inv_request [OF assms] by simp
next
  case (AnnounceAndCheck a)
  obtain r clients where ann: "announce_check now now' a (tk_addr tk) (ts_clients s) = (r, clients)"
    by (cases "announce_check now now' a (tk_addr tk) (ts_clients s)") auto
  have inv1: "tcp_inv (with_clients clients s)" using announcement_lets_go [OF inv ann] by (rule tcp_inv_with_clients)
  have "tcp_inv (set_task c (tk\<lparr>tk_status := Finished\<rparr>) (with_clients clients s))"
    using inv1 by (rule tcp_inv_idle_task) (use tk in \<open>auto simp: grows_status\<close>)
  with AnnounceAndCheck ann inv1 tcp_inv_announce_some [OF inv tk, of now now' a "tk_addr tk"] show ?thesis
    by (cases r) (auto simp: handle_msg_def)
qed

text \<open>The other steps of a task.\<close>

lemma tcp_inv_cleanup: "tcp_inv s \<Longrightarrow> tcp_inv (with_clients (poll_update now (ts_clients s)) s)"
  by (rule tcp_inv_with_clients, rule letting_goI [OF _ board.good(4) [OF tcp_inv_clients] board.expire_lets_go [OF tcp_inv_clients]])

lemma tcp_inv_confirmed:
  assumes inv: "tcp_inv s" and tk: "ts_tasks s c = Some tk" "tk_status tk = Awaiting i session dl" and "ts_chans s i = ChanSent"
  shows "tcp_inv (set_task c (send_msg ok (StartCountdown dur) (tk\<lparr>tk_status := Removing session\<rparr>)) s)"
  using inv tk(1)
  by (rule tcp_inv_idle_task) (use tk(2) assms(4) in \<open>auto intro: grows_trans [OF grows_status grows_send_msg]\<close>)

lemma tcp_inv_timed_out:
  assumes inv: "tcp_inv s" and tk: "ts_tasks s c = Some tk" "tk_status tk = Awaiting i session dl" and "ts_chans s i = ChanOpen"
  shows "tcp_inv (set_task c (tk\<lparr>tk_status := Removing session\<rparr>) (set_chan i RxDropped s))"
proof -
  let ?tk = "tk\<lparr>tk_status := Removing session\<rparr>"
  have g: "grows (Some tk) ?tk" using tk(2) by (simp add: grows_status)
  have aw: "awaits s c j ses dl' \<longleftrightarrow> j = i \<and> ses = session \<and> dl' = dl" for j ses dl' using tk by (auto simp: awaits_def)
  with g tk(1) assms(4) have "updating s c ?tk ((ts_chans s)(i := RxDropped))"
    unfolding updating_def aw using inv by auto
  moreover have "update_task c ?tk ((ts_chans s)(i := RxDropped)) s = set_task c ?tk (set_chan i RxDropped s)"
    by (simp add: update_task_def set_task_def set_chan_def)
  ultimately show ?thesis using tcp_inv_update_task by metis
qed

lemma tcp_inv_step:
  assumes "tcp_step s s'" and inv: "tcp_inv s"
  shows "tcp_inv s'"
  using assms(1)
proof cases
  case (accept c addr)
  show ?thesis unfolding accept(1)
    by (rule tcp_inv_set_task [OF inv]) (use accept in \<open>auto simp: grows_def new_task_def awaits_def\<close>)
next
  case (cleanup c tk now)
  then show ?thesis using tcp_inv_cleanup [OF inv] by simp
next
  case (message c tk now now' ok\<^sub>1 ok\<^sub>2 msg)
  then show ?thesis using tcp_inv_message [OF inv] by simp
next
  case (closed c tk)
  show ?thesis unfolding closed(1)
    using inv closed(2) by (rule tcp_inv_idle_task) (use closed in \<open>auto simp: grows_status\<close>)
next
  case (confirmed c tk i session dl ok)
  then show ?thesis using tcp_inv_confirmed [OF inv] by simp
next
  case (sender_gone c tk i session dl)
  show ?thesis unfolding sender_gone(1)
    using inv sender_gone(2) by (rule tcp_inv_idle_task) (use sender_gone in \<open>auto simp: grows_status\<close>)
next
  case (timed_out c tk i session dl now)
  then show ?thesis using tcp_inv_timed_out [OF inv] by simp
next
  case (remove c tk session)
  show ?thesis unfolding remove(1)
    using tcp_inv_with_clients [OF remove_lets_go [OF inv]]
    by (rule tcp_inv_idle_task) (use remove in \<open>auto simp: grows_status\<close>)
qed

lemma tcp_inv_reachable: "tcp_reachable s \<Longrightarrow> tcp_inv s"
  by (induction rule: tcp_reachable.induct) (auto intro: tcp_inv_new tcp_inv_step)

end
