(* ===== verification/Tcp_Agreement.thy ===== *)
theory Tcp_Agreement
  imports Tcp_Invariant
begin

text \<open>
  What the steps of the TCP rendezvous server (\<open>Tcp_Server\<close>) do to each task and each channel, and
  where the countdowns that it sends come from: every one goes back to a single announcement that
  took a request whose client was waiting (\<open>takes\<close>), and both ends of it are told (\<open>both_told\<close>).
  The agreement properties follow.
\<close>

subsection \<open>What a step does to one task\<close>

lemma set_chan_sel [simp]: "ts_tasks (set_chan i v s) = ts_tasks s" "ts_clients (set_chan i v s) = ts_clients s"
  "ts_next (set_chan i v s) = ts_next s" "ts_chans (set_chan i v s) = (ts_chans s)(i := v)"
  by (simp_all add: set_chan_def)

lemma set_task_sel [simp]: "ts_tasks (set_task c tk s) = (ts_tasks s)(c \<mapsto> tk)" "ts_clients (set_task c tk s) = ts_clients s"
  "ts_next (set_task c tk s) = ts_next s" "ts_chans (set_task c tk s) = ts_chans s"
  by (simp_all add: set_task_def)

lemma handle_msg_other: "d \<noteq> c \<Longrightarrow> ts_tasks (handle_msg now now' ok\<^sub>1 ok\<^sub>2 msg c tk s) d = ts_tasks s d"
  by (simp add: handle_msg_def Let_def split: to_nat_server_msg.split prod.split option.split)

text \<open>A message adds to what its task was sent; a countdown only if the announcement takes a request.\<close>

lemma handle_msg_own:
  assumes "ts_tasks s c = Some tk" and "tk_status tk = Looping"
  shows "\<exists>tk' ms. ts_tasks (handle_msg now now' ok\<^sub>1 ok\<^sub>2 msg c tk s) c = Some tk' \<and> tk_addr tk' = tk_addr tk
    \<and> tk_sent tk' = tk_sent tk @ ms
    \<and> (\<forall>dur. StartCountdown dur \<in> set ms \<longrightarrow> (\<exists>a ic clients. msg = AnnounceAndCheck a
        \<and> announce_check now now' a (tk_addr tk) (ts_clients s) = (Some ic, clients) \<and> ts_chans s (ic_tx ic) = ChanOpen
        \<and> ms = [RemoteAddr (ic_addr ic), StartCountdown (from_millis SCHEDULE_CON_MS)]))"
  using assms
  by (cases msg)
    (auto simp: handle_msg_def Let_def send_msg_sent split: prod.split option.split)

lemma task_step:
  assumes "tcp_step s s'" and tk: "ts_tasks s c = Some tk"
  obtains (same) "ts_tasks s' c = Some tk"
    | (message) now now' ok\<^sub>1 ok\<^sub>2 msg where "tk_status tk = Looping" "now \<le> now'" "s' = handle_msg now now' ok\<^sub>1 ok\<^sub>2 msg c tk s"
    | (closed) "tk_status tk = Looping" "ts_tasks s' c = Some (tk\<lparr>tk_status := Finished\<rparr>)"
    | (confirmed) i ses dl ok where "tk_status tk = Awaiting i ses dl" "ts_chans s i = ChanSent"
        "ts_tasks s' c = Some (send_msg ok (StartCountdown (from_millis SCHEDULE_CON_MS)) (tk\<lparr>tk_status := Removing ses\<rparr>))"
    | (given_up) i ses dl where "tk_status tk = Awaiting i ses dl" "ts_chans s i \<in> {ChanOpen, TxDropped}"
        "ts_tasks s' c = Some (tk\<lparr>tk_status := Removing ses\<rparr>)"
    | (removed) ses where "tk_status tk = Removing ses"
        "s' = set_task c (tk\<lparr>tk_status := Looping\<rparr>) (with_clients (remove_connection_request ses (ts_clients s)) s)"
  using assms(1)
proof cases
  case (accept d addr)
  with tk same show ?thesis by (cases "d = c") auto
next
  case (cleanup d t now)
  with tk same show ?thesis by simp
next
  case (message d t now now' ok\<^sub>1 ok\<^sub>2 msg)
  with tk same that(2) show ?thesis by (cases "d = c") (simp_all add: handle_msg_other)
next
  case (closed d t)
  with tk same that(3) show ?thesis by (cases "d = c") simp_all
next
  case (confirmed d t i ses dl ok)
  with tk same that(4) show ?thesis by (cases "d = c") simp_all
next
  case (sender_gone d t i ses dl)
  with tk same that(5) show ?thesis by (cases "d = c") simp_all
next
  case (timed_out d t i ses dl now)
  with tk same that(5) show ?thesis by (cases "d = c") simp_all
next
  case (remove d t ses)
  with tk same that(6) show ?thesis by (cases "d = c") simp_all
qed

text \<open>Tasks only grow.\<close>

lemma step_grows:
  assumes "tcp_step s s'" and "ts_tasks s c = Some tk"
  shows "\<exists>tk'. ts_tasks s' c = Some tk' \<and> grows (Some tk) tk'"
  using assms
proof (cases rule: task_step)
  case (message now now' ok\<^sub>1 ok\<^sub>2 msg)
  with handle_msg_own [OF assms(2) message(1), of now now' ok\<^sub>1 ok\<^sub>2 msg] show ?thesis by (auto simp: grows_def)
qed (auto simp: grows_def send_msg_sent)

lemma request_receiver: "insert_connection_request now ch ses addr clients = (Some (rx, dst), clients') \<Longrightarrow> rx = ch"
  by (auto simp: insert_connection_request_def split: option.splits)

text \<open>A channel that is not open stays as it is; only an announcement that takes a request sends.\<close>

lemma message_chans:
  assumes "i < ts_next s" and "ts_chans s i \<noteq> ChanOpen"
  shows "ts_chans (handle_msg now now' ok\<^sub>1 ok\<^sub>2 msg c tk s) i = ts_chans s i"
  using assms request_receiver
  by (fastforce simp: handle_msg_def Let_def with_clients_chans split: to_nat_server_msg.split prod.split option.split)

lemma chan_step:
  assumes "tcp_step s s'" and "i < ts_next s" and "ts_chans s i \<noteq> ChanOpen"
  shows "ts_chans s' i = ts_chans s i"
  using assms by cases (auto simp: with_clients_chans message_chans)

lemma message_sends:
  assumes "ts_chans (handle_msg now now' ok\<^sub>1 ok\<^sub>2 msg c tk s) i = ChanSent" and "ts_chans s i \<noteq> ChanSent"
  shows "\<exists>a ic clients. msg = AnnounceAndCheck a \<and> announce_check now now' a (tk_addr tk) (ts_clients s) = (Some ic, clients)
    \<and> ts_chans s i = ChanOpen \<and> ic_tx ic = i"
proof (cases msg)
  case (AnnounceAndCheck a)
  obtain r clients where ann: "announce_check now now' a (tk_addr tk) (ts_clients s) = (r, clients)" by fastforce
  have "ts_chans (with_clients clients s) i \<noteq> ChanSent" for clients using assms(2) by (simp add: with_clients_chans)
  with assms ann AnnounceAndCheck show ?thesis
    by (cases r) (auto simp: handle_msg_def with_clients_chans split: if_splits)
next
  case (TcpConnectionRequest ses)
  with assms show ?thesis
    by (auto simp: handle_msg_def Let_def with_clients_chans split: prod.splits option.splits if_splits)
qed (use assms in \<open>simp add: handle_msg_def\<close>)

lemma sent_step:
  assumes "tcp_step s s'" and "ts_chans s' i = ChanSent" and "ts_chans s i \<noteq> ChanSent"
  obtains d tkd now now' ok\<^sub>1 ok\<^sub>2 a ic clients where "ts_tasks s d = Some tkd" "tk_status tkd = Looping" "now \<le> now'"
    "announce_check now now' a (tk_addr tkd) (ts_clients s) = (Some ic, clients)" "ts_chans s i = ChanOpen" "ic_tx ic = i"
    "s' = handle_msg now now' ok\<^sub>1 ok\<^sub>2 (AnnounceAndCheck a) d tkd s"
  using assms(1)
proof cases
  case (message d tk now now' ok\<^sub>1 ok\<^sub>2 msg)
  with assms(2,3) message_sends that show ?thesis by metis
qed (use assms in \<open>auto simp: with_clients_chans split: if_splits\<close>)

lemma next_step:
  assumes "tcp_step s s'"
  shows "ts_next s \<le> ts_next s'"
  using assms by cases (simp_all add: handle_msg_def Let_def split: to_nat_server_msg.split prod.split option.split)

subsection \<open>Countdowns\<close>

text \<open>The announcement that task \<open>d\<close> receives takes the request with which task \<open>r\<close> waits.\<close>

definition takes :: "tcp_server \<Rightarrow> nat \<Rightarrow> tcp_task \<Rightarrow> nat \<Rightarrow> tcp_task \<Rightarrow> tcp_server \<Rightarrow> bool" where
  "takes s d tkd r tkr s' \<longleftrightarrow> ts_tasks s d = Some tkd \<and> tk_status tkd = Looping \<and> ts_tasks s r = Some tkr
     \<and> (\<exists>now now' ok\<^sub>1 ok\<^sub>2 a ic clients dl. now \<le> now'
          \<and> announce_check now now' a (tk_addr tkd) (ts_clients s) = (Some ic, clients) \<and> ts_chans s (ic_tx ic) = ChanOpen
          \<and> tk_status tkr = Awaiting (ic_tx ic) (ad_session a) dl \<and> tk_addr tkr = ic_addr ic
          \<and> s' = handle_msg now now' ok\<^sub>1 ok\<^sub>2 (AnnounceAndCheck a) d tkd s)"

text \<open>
  Unless its connection broke, \<open>d\<close> was then sent the requester's address and the countdown; and
  \<open>r\<close> was sent the countdown, or is about to be.
\<close>

definition both_told :: "tcp_server \<Rightarrow> nat \<Rightarrow> tcp_task \<Rightarrow> nat \<Rightarrow> tcp_task \<Rightarrow> bool" where
  "both_told s d tkd r tkr \<longleftrightarrow>
     (\<exists>tk. ts_tasks s d = Some tk \<and> (tk_status tk = Crashed
        \<or> prefix (tk_sent tkd @ [RemoteAddr (tk_addr tkr), StartCountdown (from_millis 500)]) (tk_sent tk)))
   \<and> (\<exists>tk. ts_tasks s r = Some tk \<and> (tk_status tk = Crashed
        \<or> prefix (tk_sent tkr @ [StartCountdown (from_millis 500)]) (tk_sent tk)
        \<or> tk = tkr \<and> (\<exists>i ses dl. tk_status tkr = Awaiting i ses dl \<and> ts_chans s i = ChanSent)))"

lemma takes_step: "takes s d tkd r tkr s' \<Longrightarrow> tcp_step s s'"
  unfolding takes_def by (blast intro: tcp_step.message)

lemma takes_distinct: "takes s d tkd r tkr s' \<Longrightarrow> d \<noteq> r"
  by (auto simp: takes_def)

lemma both_told_taken:
  assumes "takes s d tkd r tkr s'"
  shows "both_told s' d tkd r tkr"
proof -
  note dr = takes_distinct [OF assms]
  from assms show ?thesis
    unfolding takes_def both_told_def
    using dr by (auto simp: handle_msg_other handle_msg_def send_msg_sent with_clients_chans SCHEDULE_CON_MS_def)
qed

lemma told_grows:
  assumes "tk_status tk = Crashed \<or> prefix ms (tk_sent tk)" and "grows (Some tk) tk'"
  shows "tk_status tk' = Crashed \<or> prefix ms (tk_sent tk')"
proof -
  from assms(2) have "prefix (tk_sent tk) (tk_sent tk')" "tk_status tk = Crashed \<Longrightarrow> tk_status tk' = Crashed"
    by (simp_all add: grows_def)
  with assms(1) show ?thesis using prefix_order.trans by blast
qed

lemma both_told_step:
  assumes inv: "tcp_inv s" and step: "tcp_step s s'" and b: "both_told s d tkd r tkr"
  shows "both_told s' d tkd r tkr"
proof -
  from b obtain td where td: "ts_tasks s d = Some td" "tk_status td = Crashed
      \<or> prefix (tk_sent tkd @ [RemoteAddr (tk_addr tkr), StartCountdown (from_millis 500)]) (tk_sent td)"
    unfolding both_told_def by blast
  from step_grows [OF step td(1)] obtain td' where td': "ts_tasks s' d = Some td'" "grows (Some td) td'" by blast
  from b obtain tr where tr: "ts_tasks s r = Some tr" "tk_status tr = Crashed
      \<or> prefix (tk_sent tkr @ [StartCountdown (from_millis 500)]) (tk_sent tr)
      \<or> tr = tkr \<and> (\<exists>i ses dl. tk_status tkr = Awaiting i ses dl \<and> ts_chans s i = ChanSent)"
    unfolding both_told_def by blast
  from step_grows [OF step tr(1)] obtain tr' where tr': "ts_tasks s' r = Some tr'" "grows (Some tr) tr'" by blast
  have "tk_status tr' = Crashed \<or> prefix (tk_sent tkr @ [StartCountdown (from_millis 500)]) (tk_sent tr')
      \<or> tr' = tkr \<and> (\<exists>i ses dl. tk_status tkr = Awaiting i ses dl \<and> ts_chans s' i = ChanSent)"
  proof (cases "tr = tkr \<and> (\<exists>i ses dl. tk_status tkr = Awaiting i ses dl \<and> ts_chans s i = ChanSent)")
    case False
    with tr(2) have "tk_status tr = Crashed \<or> prefix (tk_sent tkr @ [StartCountdown (from_millis 500)]) (tk_sent tr)" by blast
    from told_grows [OF this tr'(2)] show ?thesis by blast
  next
    case True
    then obtain i ses dl where w: "tr = tkr" "tk_status tkr = Awaiting i ses dl" "ts_chans s i = ChanSent" by blast
    with tr(1) have "i < ts_next s" by (intro awaits_in_use [OF inv]) (auto simp: awaits_def)
    with chan_step [OF step this] w(3) have "ts_chans s' i = ChanSent" by simp
    from step tr(1) show ?thesis
      by (cases rule: task_step)
        (use w tr'(1) \<open>ts_chans s' i = ChanSent\<close> in \<open>auto simp: send_msg_sent SCHEDULE_CON_MS_def\<close>)
  qed
  moreover have "tk_status td' = Crashed
      \<or> prefix (tk_sent tkd @ [RemoteAddr (tk_addr tkr), StartCountdown (from_millis 500)]) (tk_sent td')"
    using td(2) td'(2) by (rule told_grows)
  ultimately show ?thesis unfolding both_told_def using td'(1) tr'(1) by blast
qed

lemma reachable_steps: "tcp_step\<^sup>*\<^sup>* s s' \<Longrightarrow> tcp_reachable s \<Longrightarrow> tcp_reachable s'"
  by (induction rule: rtranclp_induct) (auto intro: tcp_reachable.step)

lemma both_told_later:
  assumes "tcp_reachable s" and "takes s d tkd r tkr s\<^sub>1" and "tcp_step\<^sup>*\<^sup>* s\<^sub>1 s'"
  shows "both_told s' d tkd r tkr"
  using assms(3)
proof (induction rule: rtranclp_induct)
  case base
  show ?case using assms(2) by (rule both_told_taken)
next
  case (step s\<^sub>2 s\<^sub>3)
  have "tcp_reachable s\<^sub>1" using assms(1) takes_step [OF assms(2)] by (rule tcp_reachable.step)
  from tcp_inv_reachable [OF reachable_steps [OF step.hyps(1) this]] show ?case using step.hyps(2) step.IH by (rule both_told_step)
qed

text \<open>A service never confirms a request in vain for lack of time: when an announcement takes a pending
  request whose channel is open, the connection that left it still waits for this very session,
  and will go on waiting for more than half a second.\<close>

lemma confirmation_meets_requester:
  assumes "tcp_reachable s" and "announce_check now now' a addr (ts_clients s) = (Some ic, clients)"
    and "ts_chans s (ic_tx ic) = ChanOpen"
  shows "\<exists>c tk dl. ts_tasks s c = Some tk \<and> tk_status tk = Awaiting (ic_tx ic) (ad_session a) dl
    \<and> tk_addr tk = ic_addr ic \<and> now' + from_millis 500 < dl"
proof -
  note inv = tcp_inv_reachable [OF assms(1)]
  note live = announce_takes(1,2) [OF inv assms(2)]
  from open_awaited [OF inv assms(3) pending_in_use [OF inv live(1)]]
  obtain c ses dl tk where tk: "ts_tasks s c = Some tk" "tk_status tk = Awaiting (ic_tx ic) ses dl"
    by (auto simp: awaits_def)
  then have "awaits s c (ic_tx ic) ses dl" "at_addr s c (tk_addr tk)" by (auto simp: awaits_def at_addr_def)
  from waiting [OF inv this] assms(3) obtain ic' where ic': "pending s ses = Some ic'" "ic_tx ic' = ic_tx ic"
    "ic_addr ic' = tk_addr tk" "ic_tm ic' + from_millis 500 \<le> dl"
    by (auto simp: wait_ok_def requested_def)
  have ses: "ses = ad_session a" using pending_session [OF inv live(1) ic'(1,2)] .
  with ic'(1) live(1) have "ic' = ic" by simp
  with tk ic' live(2) ses show ?thesis by (intro exI [of _ c] exI [of _ tk] exI [of _ dl]) auto
qed

lemma announcement_takes:
  assumes "tcp_reachable s" and "ts_tasks s d = Some tkd" "tk_status tkd = Looping" and "now \<le> now'"
    and "announce_check now now' a (tk_addr tkd) (ts_clients s) = (Some ic, clients)" "ts_chans s (ic_tx ic) = ChanOpen"
  shows "\<exists>r tkr dl. takes s d tkd r tkr (handle_msg now now' ok\<^sub>1 ok\<^sub>2 (AnnounceAndCheck a) d tkd s)
    \<and> tk_status tkr = Awaiting (ic_tx ic) (ad_session a) dl \<and> tk_addr tkr = ic_addr ic"
  using confirmation_meets_requester [OF assms(1,5,6)] assms(2-6) unfolding takes_def by blast

text \<open>Every confirmed wait and every countdown goes back to such an announcement.\<close>

definition taken_in :: "tcp_server \<Rightarrow> nat \<Rightarrow> tcp_task \<Rightarrow> nat \<Rightarrow> tcp_task \<Rightarrow> bool" where
  "taken_in s d tkd r tkr \<longleftrightarrow> (\<exists>s\<^sub>0 s\<^sub>1. tcp_reachable s\<^sub>0 \<and> takes s\<^sub>0 d tkd r tkr s\<^sub>1 \<and> tcp_step\<^sup>*\<^sup>* s\<^sub>1 s)"

lemma taken_in_now: "tcp_reachable s \<Longrightarrow> takes s d tkd r tkr s' \<Longrightarrow> taken_in s' d tkd r tkr"
  unfolding taken_in_def by blast

lemma taken_in_step: "taken_in s d tkd r tkr \<Longrightarrow> tcp_step s s' \<Longrightarrow> taken_in s' d tkd r tkr"
  unfolding taken_in_def by (blast intro: rtranclp.rtrancl_into_rtrancl)

lemma new_wait:
  assumes "tcp_step s s'" and "ts_tasks s' r = Some tkr" and "tk_status tkr = Awaiting i ses dl"
  shows "ts_tasks s r = Some tkr \<or> i = ts_next s"
  using assms(1)
proof cases
  case (message d tk now now' ok\<^sub>1 ok\<^sub>2 msg)
  show ?thesis
  proof (cases "d = r")
    case False
    with message assms(2) show ?thesis by (simp add: handle_msg_other)
  next
    case True
    with message assms(2,3) request_receiver show ?thesis
      by (cases msg) (auto simp: handle_msg_def Let_def split: prod.splits option.splits if_splits)
  qed
qed (use assms in \<open>auto simp: new_task_def split: if_splits\<close>)

lemma confirmed_wait_taken:
  assumes "tcp_reachable s" and "ts_tasks s r = Some tkr" and "tk_status tkr = Awaiting i ses dl" and "ts_chans s i = ChanSent"
  shows "\<exists>d tkd. taken_in s d tkd r tkr"
  using assms
proof (induction arbitrary: tkr rule: tcp_reachable.induct)
  case start
  then show ?case by (simp add: tcp_server_new_def)
next
  case (step s s')
  note inv = tcp_inv_reachable [OF step.hyps(1)]
  show ?case
  proof (cases "ts_chans s i = ChanSent")
    case True
    with unused_open [OF inv, of i] have "i \<noteq> ts_next s" by auto
    with new_wait [OF step.hyps(2) step.prems(1,2)] have "ts_tasks s r = Some tkr" by blast
    then show ?thesis using step.IH [OF _ step.prems(2) True] step.hyps(2) taken_in_step by blast
  next
    case False
    from step.hyps(2) step.prems(3) False obtain d tkd now now' ok\<^sub>1 ok\<^sub>2 a ic clients where
      d: "ts_tasks s d = Some tkd" "tk_status tkd = Looping" "now \<le> now'"
        "announce_check now now' a (tk_addr tkd) (ts_clients s) = (Some ic, clients)" "ts_chans s i = ChanOpen" "ic_tx ic = i"
        "s' = handle_msg now now' ok\<^sub>1 ok\<^sub>2 (AnnounceAndCheck a) d tkd s" by (rule sent_step)
    from announcement_takes [OF step.hyps(1) d(1-4), of ok\<^sub>1 ok\<^sub>2] d(5-7)
    obtain r' tkr' dl' where t: "takes s d tkd r' tkr' s'" "tk_status tkr' = Awaiting i (ad_session a) dl'" by blast
    then have r': "ts_tasks s r' = Some tkr'" "awaits s r' i (ad_session a) dl'" by (auto simp: takes_def awaits_def)
    with new_wait [OF step.hyps(2) step.prems(1,2)] awaits_in_use [OF inv] have r: "ts_tasks s r = Some tkr" by blast
    with step.prems(2) have "awaits s r i ses dl" by (simp add: awaits_def)
    from awaits_unique [OF inv this r'(2)] r r'(1) have "r' = r \<and> tkr' = tkr" by simp
    with taken_in_now [OF step.hyps(1) t(1)] show ?thesis by blast
  qed
qed

lemma prefix_added:
  assumes "prefix (u @ [x]) (old @ ms)"
  shows "prefix (u @ [x]) old \<or> (\<exists>us. u = old @ us \<and> prefix (us @ [x]) ms)"
proof (rule disjCI)
  assume no: "\<not> (\<exists>us. u = old @ us \<and> prefix (us @ [x]) ms)"
  from assms consider "prefix (u @ [x]) old" | us where "u @ [x] = old @ us" "prefix us ms"
    by (auto simp: prefix_append)
  then show "prefix (u @ [x]) old"
  proof cases
    case (2 us)
    show ?thesis
    proof (cases us rule: rev_cases)
      case Nil
      with 2 show ?thesis by simp
    next
      case (snoc us' y)
      with 2 no show ?thesis by auto
    qed
  qed
qed

lemma prefix_of_single: "prefix (us @ [x]) [y] \<longleftrightarrow> us = [] \<and> x = y"
  by (cases us) auto

lemma first_step_sends_nothing:
  assumes "tcp_step s s'" and "ts_tasks s c = None" and "ts_tasks s' c = Some tk"
  shows "tk_sent tk = []"
  using assms(1)
proof cases
  case (message d t now now' ok\<^sub>1 ok\<^sub>2 msg)
  with assms(2,3) show ?thesis by (cases "d = c") (simp_all add: handle_msg_other)
qed (use assms in \<open>auto simp: new_task_def split: if_splits\<close>)

lemma step_countdown:
  assumes reach: "tcp_reachable s" and step: "tcp_step s s'" and "ts_tasks s' c = Some tk'"
    and "prefix (u @ [StartCountdown dur]) (tk_sent tk')"
  shows "(\<exists>tk. ts_tasks s c = Some tk \<and> prefix (u @ [StartCountdown dur]) (tk_sent tk))
    \<or> dur = from_millis 500 \<and> (\<exists>d tkd r tkr. taken_in s' d tkd r tkr
        \<and> (c = d \<and> u = tk_sent tkd @ [RemoteAddr (tk_addr tkr)] \<or> c = r \<and> u = tk_sent tkr))"
proof (cases "ts_tasks s c")
  case None
  from first_step_sends_nothing [OF step None assms(3)] assms(4) show ?thesis by simp
next
  case (Some tk)
  from step Some show ?thesis
  proof (cases rule: task_step)
    case (message now now' ok\<^sub>1 ok\<^sub>2 msg)
    from handle_msg_own [OF Some message(1), of now now' ok\<^sub>1 ok\<^sub>2 msg] message(3) assms(3) obtain ms where
      ms: "tk_sent tk' = tk_sent tk @ ms" and cd: "\<And>dur. StartCountdown dur \<in> set ms \<Longrightarrow> \<exists>a ic clients.
        msg = AnnounceAndCheck a \<and> announce_check now now' a (tk_addr tk) (ts_clients s) = (Some ic, clients)
        \<and> ts_chans s (ic_tx ic) = ChanOpen \<and> ms = [RemoteAddr (ic_addr ic), StartCountdown (from_millis SCHEDULE_CON_MS)]"
      by auto
    from prefix_added [OF assms(4) [unfolded ms]] consider "prefix (u @ [StartCountdown dur]) (tk_sent tk)"
      | us where "u = tk_sent tk @ us" "prefix (us @ [StartCountdown dur]) ms" by blast
    then show ?thesis
    proof cases
      case 1
      with Some show ?thesis by blast
    next
      case (2 us)
      then have "StartCountdown dur \<in> set ms" using set_mono_prefix by fastforce
      from cd [OF this] obtain a ic clients where a: "msg = AnnounceAndCheck a"
        "announce_check now now' a (tk_addr tk) (ts_clients s) = (Some ic, clients)" "ts_chans s (ic_tx ic) = ChanOpen"
        "ms = [RemoteAddr (ic_addr ic), StartCountdown (from_millis SCHEDULE_CON_MS)]" by blast
      with 2(2) have us: "us = [RemoteAddr (ic_addr ic)] \<and> dur = from_millis 500"
        by (cases us) (auto simp: SCHEDULE_CON_MS_def prefix_of_single)
      from announcement_takes [OF reach Some message(1,2) a(2,3), of ok\<^sub>1 ok\<^sub>2] message(3) a(1)
      obtain r tkr where t: "takes s c tk r tkr s'" "tk_addr tkr = ic_addr ic" by blast
      from us taken_in_now [OF reach t(1)] 2(1) t(2) show ?thesis by metis
    qed
  next
    case (confirmed i ses dl ok)
    from confirmed(3) assms(3) have "tk_sent tk' = tk_sent tk @ (if ok then [StartCountdown (from_millis 500)] else [])"
      by (auto simp: send_msg_sent SCHEDULE_CON_MS_def)
    with assms(4) have "prefix (u @ [StartCountdown dur]) (tk_sent tk) \<or> u = tk_sent tk \<and> dur = from_millis 500"
      by (auto dest!: prefix_added simp: prefix_of_single split: if_splits)
    with confirmed_wait_taken [OF reach Some confirmed(1,2)] taken_in_step [OF _ step] Some show ?thesis by metis
  qed (use Some assms(3,4) in auto)
qed

lemma countdown_taken:
  assumes "tcp_reachable s" and "ts_tasks s c = Some tk" and "prefix (u @ [StartCountdown dur]) (tk_sent tk)"
  shows "dur = from_millis 500 \<and> (\<exists>d tkd r tkr. taken_in s d tkd r tkr
    \<and> (c = d \<and> u = tk_sent tkd @ [RemoteAddr (tk_addr tkr)] \<or> c = r \<and> u = tk_sent tkr))"
  using assms
proof (induction arbitrary: tk rule: tcp_reachable.induct)
  case start
  then show ?case by (simp add: tcp_server_new_def)
next
  case (step s s')
  from step_countdown [OF step.hyps step.prems] step.IH taken_in_step [OF _ step.hyps(2)] show ?case by metis
qed

subsection \<open>Properties\<close>

text \<open>
  A run in which a service (task 0) announces itself, a client (task 1) leaves a request, and
  the service announces itself again (task 2) and takes it.
\<close>

definition ex_run\<^sub>1 :: tcp_server where
  "ex_run\<^sub>1 = handle_msg 0 0 True True (AnnounceAndCheck ex_service) 0 (new_task (ex_at 1))
     (set_task 0 (new_task (ex_at 1)) tcp_server_new)"

definition ex_run\<^sub>2 :: tcp_server where
  "ex_run\<^sub>2 = handle_msg 1 2 True True (TcpConnectionRequest 42) 1 (new_task (ex_at 2))
     (set_task 1 (new_task (ex_at 2)) ex_run\<^sub>1)"

definition ex_run\<^sub>3 :: tcp_server where
  "ex_run\<^sub>3 = handle_msg 3 4 True True (AnnounceAndCheck ex_service) 2 (new_task (ex_at 1))
     (set_task 2 (new_task (ex_at 1)) ex_run\<^sub>2)"

lemma ex_accept_message:
  assumes "tcp_reachable s" and "ts_tasks s c = None" and "now \<le> now'"
  shows "tcp_reachable (handle_msg now now' ok\<^sub>1 ok\<^sub>2 msg c (new_task addr) (set_task c (new_task addr) s))"
proof -
  have "tcp_reachable (set_task c (new_task addr) s)"
    using assms(1) tcp_step.accept [of s c addr, OF assms(2)] by (rule tcp_reachable.step)
  moreover have "tcp_step (set_task c (new_task addr) s)
      (handle_msg now now' ok\<^sub>1 ok\<^sub>2 msg c (new_task addr) (set_task c (new_task addr) s))"
    by (rule tcp_step.message) (simp_all add: set_task_def new_task_def assms(3))
  ultimately show ?thesis by (rule tcp_reachable.step)
qed

lemmas ex_run_defs = handle_msg_def announce_check_def insert_connection_request_def set_task_def new_task_def
  with_clients_def set_chan_def send_msg_def tcp_server_new_def tcp_state_new_def ex_service_def
  hm_get_def hm_insert_def held_def List.map_filter_def hm_values_def Let_def

lemma ex_run\<^sub>1_eq: "ts_clients ex_run\<^sub>1 = ex_clients" "ts_next ex_run\<^sub>1 = 0" "ts_chans ex_run\<^sub>1 = (\<lambda>_. ChanOpen)"
  "ts_tasks ex_run\<^sub>1 = [0 \<mapsto> \<lparr>tk_addr = ex_at 1, tk_status = Finished, tk_sent = []\<rparr>]"
  by (simp_all add: ex_run\<^sub>1_def ex_clients_eq ex_run_defs)

definition ex_incoming :: incoming_connection where
  "ex_incoming = \<lparr>ic_tm = 1 + from_millis 4500, ic_addr = ex_at 2, ic_tx = 0\<rparr>"

lemma ex_run\<^sub>2_eq:
  "ts_clients ex_run\<^sub>2 = [(42, \<lparr>last_announcement = 0, kc_data = ex_service, kc_addr = ex_at 1,
      pending_connection = Some ex_incoming\<rparr>)]"
  "ts_next ex_run\<^sub>2 = 1" "ts_chans ex_run\<^sub>2 = (\<lambda>_. ChanOpen)"
  "ts_tasks ex_run\<^sub>2 = [0 \<mapsto> \<lparr>tk_addr = ex_at 1, tk_status = Finished, tk_sent = []\<rparr>,
     1 \<mapsto> \<lparr>tk_addr = ex_at 2, tk_status = Awaiting 0 42 (2 + from_millis 5000), tk_sent = [RemoteAddr (ex_at 1)]\<rparr>]"
  by (simp_all add: ex_run\<^sub>2_def ex_run\<^sub>1_eq ex_clients_eq ex_run_defs ex_incoming_def
      CONNECTION_REQUEST_TIMEOUT_MS_def)

lemma ex_takes: "announce_check 3 4 ex_service (ex_at 1) (ts_clients ex_run\<^sub>2) = (Some ex_incoming,
    [(42, \<lparr>last_announcement = 3, kc_data = ex_service, kc_addr = ex_at 1, pending_connection = None\<rparr>)])"
  by (simp add: ex_run\<^sub>2_eq announce_check_def ex_service_def hm_get_def hm_insert_def ex_incoming_def time_simps Let_def)

lemma ex_run\<^sub>3_task: "ts_tasks ex_run\<^sub>3 2 = Some \<lparr>tk_addr = ex_at 1, tk_status = Looping,
    tk_sent = [RemoteAddr (ex_at 2), StartCountdown (from_millis SCHEDULE_CON_MS)]\<rparr>"
proof -
  have "ts_chans ex_run\<^sub>2 (ic_tx ex_incoming) = ChanOpen" by (simp add: ex_run\<^sub>2_eq)
  then show ?thesis
    using ex_takes by (simp add: ex_run\<^sub>3_def handle_msg_def set_task_def new_task_def with_clients_def
        set_chan_def send_msg_def ex_incoming_def)
qed

lemma ex_reachable: "tcp_reachable ex_run\<^sub>1" "tcp_reachable ex_run\<^sub>2" "tcp_reachable ex_run\<^sub>3"
proof -
  show 1: "tcp_reachable ex_run\<^sub>1"
    unfolding ex_run\<^sub>1_def by (rule ex_accept_message [OF tcp_reachable.start]) (simp_all add: tcp_server_new_def)
  show 2: "tcp_reachable ex_run\<^sub>2"
    unfolding ex_run\<^sub>2_def by (rule ex_accept_message [OF 1]) (simp_all add: ex_run\<^sub>1_eq)
  show "tcp_reachable ex_run\<^sub>3"
    unfolding ex_run\<^sub>3_def by (rule ex_accept_message [OF 2]) (simp_all add: ex_run\<^sub>2_eq)
qed

text \<open>C14: Nobody starts the countdown alone. Take any countdown that was sent on any connection of any
  reachable state, after the messages \<open>u\<close>. It lasts half a second, and it goes back to one
  earlier step of the server: an announcement on a connection \<open>d\<close> that took the request with
  which another connection \<open>r\<close>, in its loop's \<open>timeout\<close> on the request's channel, was waiting for
  the announced session. The countdown is the one that this step brought: the one that \<open>d\<close> was
  sent right after the address of \<open>r\<close>, or the first message that \<open>r\<close> was sent after its wait. And
  by now both ends were told: \<open>d\<close> was sent the address of \<open>r\<close> and the countdown, unless its
  connection broke; \<open>r\<close> was sent the countdown, unless its connection broke or it has not woken
  up yet, its channel having been sent to.\<close>

theorem tcp_countdown_agreement:
  assumes "tcp_reachable s" and "ts_tasks s c = Some tk" and "tk_sent tk = u @ StartCountdown dur # v"
  shows "dur = from_millis 500 \<and> (\<exists>s\<^sub>0 s\<^sub>1 d tkd r tkr. tcp_reachable s\<^sub>0 \<and> takes s\<^sub>0 d tkd r tkr s\<^sub>1 \<and> tcp_step\<^sup>*\<^sup>* s\<^sub>1 s
    \<and> d \<noteq> r \<and> (c = d \<and> u = tk_sent tkd @ [RemoteAddr (tk_addr tkr)] \<or> c = r \<and> u = tk_sent tkr)
    \<and> both_told s d tkd r tkr)"
proof -
  have "prefix (u @ [StartCountdown dur]) (tk_sent tk)" using assms(3) by simp
  from countdown_taken [OF assms(1,2) this] show ?thesis
    unfolding taken_in_def by (blast dest: both_told_later takes_distinct)
qed

theorem tcp_countdown_agreement_witness:
  "from_millis SCHEDULE_CON_MS = from_millis 500
    \<and> (\<exists>s\<^sub>0 s\<^sub>1 d tkd r tkr. tcp_reachable s\<^sub>0 \<and> takes s\<^sub>0 d tkd r tkr s\<^sub>1 \<and> tcp_step\<^sup>*\<^sup>* s\<^sub>1 ex_run\<^sub>3 \<and> d \<noteq> r
      \<and> (2 = d \<and> [RemoteAddr (ex_at 2)] = tk_sent tkd @ [RemoteAddr (tk_addr tkr)] \<or> 2 = r \<and> [RemoteAddr (ex_at 2)] = tk_sent tkr)
      \<and> both_told ex_run\<^sub>3 d tkd r tkr)"
  by (rule tcp_countdown_agreement [OF ex_reachable(3) ex_run\<^sub>3_task, of _ _ "[]"]) simp

text \<open>C22: A request that is still pending brings its two ends together. In every reachable state, when a
  service announces the session of a live request whose channel is open, then the connection
  that left the request still waits, for more than half a second; if the sends succeed the
  service is told that connection's address and to count down half a second; and the waiting
  connection can be told to count down as well at once, whatever its own time.\<close>

theorem tcp_rendezvous:
  assumes "tcp_reachable s" and c: "ts_tasks s c = Some tk" "tk_status tk = Looping" and "now \<le> now'"
    and live: "live_pending now' (ts_clients s) (ad_session a) = Some ic" and open_chan: "ts_chans s (ic_tx ic) = ChanOpen"
  shows "let s' = handle_msg now now' True True (AnnounceAndCheck a) c tk s in tcp_step s s'
    \<and> (\<exists>d tkd dl. ts_tasks s d = Some tkd \<and> d \<noteq> c \<and> tk_status tkd = Awaiting (ic_tx ic) (ad_session a) dl
        \<and> now' + from_millis 500 < dl
        \<and> (\<exists>tk'. ts_tasks s' c = Some tk'
            \<and> tk_sent tk' = tk_sent tk @ [RemoteAddr (tk_addr tkd), StartCountdown (from_millis 500)])
        \<and> (\<exists>s'' tkd'. tcp_step s' s'' \<and> ts_tasks s'' d = Some tkd'
            \<and> tk_sent tkd' = tk_sent tkd @ [StartCountdown (from_millis 500)]))"
proof -
  let ?s' = "handle_msg now now' True True (AnnounceAndCheck a) c tk s"
  obtain clients where ann: "announce_check now now' a (tk_addr tk) (ts_clients s) = (Some ic, clients)"
    using live by (simp add: announce_check_eq)
  from confirmation_meets_requester [OF assms(1) ann open_chan] obtain d tkd dl where
    d: "ts_tasks s d = Some tkd" "tk_status tkd = Awaiting (ic_tx ic) (ad_session a) dl" "tk_addr tkd = ic_addr ic"
      "now' + from_millis 500 < dl" by blast
  with c have dc: "d \<noteq> c" by auto
  let ?tk = "send_msg True (StartCountdown (from_millis SCHEDULE_CON_MS)) (send_msg True (RemoteAddr (ic_addr ic)) tk)"
  have s': "?s' = set_task c ?tk (with_clients clients (set_chan (ic_tx ic) ChanSent s))"
    using ann open_chan by (simp add: handle_msg_def)
  have told: "tk_sent ?tk = tk_sent tk @ [RemoteAddr (tk_addr tkd), StartCountdown (from_millis 500)]"
    using c(2) d(3) by (simp add: send_msg_def SCHEDULE_CON_MS_def)
  have "ts_tasks ?s' d = Some tkd" "ts_chans ?s' (ic_tx ic) = ChanSent"
    using d(1) dc by (simp_all add: s' set_task_def set_chan_def with_clients_def)
  note step = tcp_step.confirmed [OF this(1) d(2) this(2), of True]
  let ?tkd = "send_msg True (StartCountdown (from_millis SCHEDULE_CON_MS)) (tkd\<lparr>tk_status := Removing (ad_session a)\<rparr>)"
  have "tk_sent ?tkd = tk_sent tkd @ [StartCountdown (from_millis 500)]" by (simp add: send_msg_def SCHEDULE_CON_MS_def)
  moreover have "ts_tasks (set_task d ?tkd ?s') d = Some ?tkd" by (simp add: set_task_def)
  ultimately have "\<exists>s'' tkd'. tcp_step ?s' s'' \<and> ts_tasks s'' d = Some tkd'
      \<and> tk_sent tkd' = tk_sent tkd @ [StartCountdown (from_millis 500)]" using step by blast
  moreover have "tcp_step s ?s'" using c assms(4) by (rule tcp_step.message)
  moreover have "ts_tasks ?s' c = Some ?tk" by (simp add: s' set_task_def)
  ultimately show ?thesis unfolding Let_def using d(1,2,4) dc told by blast
qed

theorem tcp_rendezvous_witness:
  "\<exists>s' tk'. tcp_step (set_task 2 (new_task (ex_at 1)) ex_run\<^sub>2) s' \<and> ts_tasks s' 2 = Some tk'
    \<and> tk_sent tk' = [RemoteAddr (ex_at 2), StartCountdown (from_millis 500)]"
proof -
  let ?s = "set_task 2 (new_task (ex_at 1)) ex_run\<^sub>2"
  have "tcp_step ex_run\<^sub>2 ?s" by (rule tcp_step.accept) (simp add: ex_run\<^sub>2_eq)
  with ex_reachable(2) have "tcp_reachable ?s" by (rule tcp_reachable.step)
  moreover have "ts_tasks ?s 2 = Some (new_task (ex_at 1))" "tk_status (new_task (ex_at 1)) = Looping" "(3::nat) \<le> 4"
    by (simp_all add: set_task_def new_task_def)
  moreover have "live_pending 4 (ts_clients ?s) (ad_session ex_service) = Some ex_incoming"
    using ex_takes by (simp add: announce_check_eq set_task_def)
  moreover have "ts_chans ?s (ic_tx ex_incoming) = ChanOpen" by (simp add: set_task_def ex_run\<^sub>2_eq)
  ultimately have r: "let s' = handle_msg 3 4 True True (AnnounceAndCheck ex_service) 2 (new_task (ex_at 1)) ?s in tcp_step ?s s'
    \<and> (\<exists>d tkd dl. ts_tasks ?s d = Some tkd \<and> d \<noteq> 2 \<and> tk_status tkd = Awaiting (ic_tx ex_incoming) (ad_session ex_service) dl
        \<and> 4 + from_millis 500 < dl
        \<and> (\<exists>tk'. ts_tasks s' 2 = Some tk'
            \<and> tk_sent tk' = tk_sent (new_task (ex_at 1)) @ [RemoteAddr (tk_addr tkd), StartCountdown (from_millis 500)])
        \<and> (\<exists>s'' tkd'. tcp_step s' s'' \<and> ts_tasks s'' d = Some tkd'
            \<and> tk_sent tkd' = tk_sent tkd @ [StartCountdown (from_millis 500)]))"
    by (rule tcp_rendezvous)
  have only: "d = 1 \<and> tk_addr tkd = ex_at 2"
    if "ts_tasks ?s d = Some tkd" "d \<noteq> 2" "tk_status tkd = Awaiting i ses dl" for d tkd i ses dl
    using that by (auto simp: set_task_def ex_run\<^sub>2_eq split: if_splits)
  from r only show ?thesis unfolding Let_def by (metis append_Nil new_task_def tcp_task.select_convs(3))
qed

text \<open>The second request drops the first one's sender; the first task then removes the second request.\<close>

lemma second_request:
  fixes now now' ok
  assumes inv: "tcp_inv s" and tkc: "ts_tasks s c = Some tkc" "tk_status tkc = Awaiting i ses dl" and "ts_chans s i = ChanOpen"
    and d: "ts_tasks s d = Some tk" "tk_status tk = Looping"
  defines "s\<^sub>1 \<equiv> handle_msg now now' True ok (TcpConnectionRequest ses) d tk s"
  shows "ts_chans s\<^sub>1 i = TxDropped" and "ts_tasks s\<^sub>1 c = Some tkc" and "tcp_ok (ts_clients s\<^sub>1)"
    and "pending s\<^sub>1 ses = Some (request_of now tk s)" and "ts_chans s\<^sub>1 (ts_next s) = ChanOpen"
    and "\<exists>dl'. awaits s\<^sub>1 d (ts_next s) ses dl'"
proof -
  have cd: "c \<noteq> d" using tkc d by auto
  have "awaits s c i ses dl" "at_addr s c (tk_addr tkc)" using tkc by (auto simp: awaits_def at_addr_def)
  from waiting [OF inv this] assms(4) obtain ic where ic: "pending s ses = Some ic" "ic_tx ic = i"
    by (auto simp: wait_ok_def requested_def)
  then obtain client where cl: "hm_get (ts_clients s) ses = Some client" by (auto simp: pending_of_def split: option.splits)
  note r = request_entered [OF inv cl, where now = now and tk = tk] and step = request_step [OF inv cl, of now now' True ok d tk]
  have lt: "i < ts_next s" using pending_in_use [OF inv ic(1)] ic(2) by simp
  note ok = tcp_inv_clients [OF inv]
  have "i \<in> set (held (ts_clients s))" using ic by (auto simp: set_held [OF ok])
  moreover have "i \<notin> set (held (remove_connection_request ses (ts_clients s)))"
    using pending_session [OF inv ic(1)] ic(2)
    by (auto simp: set_held [OF tcp_ok_remove_request [OF ok]] pending_of_remove_request [OF ok] split: if_splits)
  ultimately show "ts_chans s\<^sub>1 i = TxDropped"
    using lt assms(4) by (simp add: s\<^sub>1_def step with_clients_chans)
  show "ts_tasks s\<^sub>1 c = Some tkc" "ts_chans s\<^sub>1 (ts_next s) = ChanOpen" "tcp_ok (ts_clients s\<^sub>1)"
    "pending s\<^sub>1 ses = Some (request_of now tk s)"
    using cd tkc(1) r(2,3) by (simp_all add: s\<^sub>1_def step)
  show "\<exists>dl'. awaits s\<^sub>1 d (ts_next s) ses dl'" by (simp add: s\<^sub>1_def step awaits_def)
qed

text \<open>A task whose channel lost its sender gives up at its next step, without a message.\<close>

lemma dropped_step:
  assumes inv: "tcp_inv s" and step: "tcp_step s s'"
    and tk: "ts_tasks s c = Some tk" "tk_status tk = Awaiting i ses dl" "ts_chans s i = TxDropped"
  shows "ts_tasks s' c \<in> {Some tk, Some (tk\<lparr>tk_status := Removing ses\<rparr>)}" and "ts_chans s' i = TxDropped"
proof -
  have "i < ts_next s" using tk by (intro awaits_in_use [OF inv]) (auto simp: awaits_def)
  with chan_step [OF step] tk(3) show "ts_chans s' i = TxDropped" by simp
  show "ts_tasks s' c \<in> {Some tk, Some (tk\<lparr>tk_status := Removing ses\<rparr>)}"
    using step tk(1) by (cases rule: task_step) (use tk in auto)
qed

lemma dropped_stays:
  assumes "tcp_step\<^sup>*\<^sup>* s s'" and "tcp_inv s" and "i < ts_next s" and "ts_chans s i = TxDropped"
  shows "ts_chans s' i = TxDropped \<and> tcp_inv s' \<and> i < ts_next s'"
  using assms(1)
proof (induction rule: rtranclp_induct)
  case (step s\<^sub>2 s\<^sub>3)
  with chan_step [OF step.hyps(2)] tcp_inv_step [OF step.hyps(2)] next_step [OF step.hyps(2)] show ?case by auto
qed (use assms in simp)

text \<open>
  The clean-up of a request removes whatever request is pending for its session, and so cancels
  the one with which another task waits.
\<close>

lemma removing_step:
  assumes inv: "tcp_inv s" and step: "tcp_step s s'"
    and c: "ts_tasks s c = Some tkc" "tk_status tkc = Removing ses" and moved: "ts_tasks s' c \<noteq> Some tkc"
    and d: "ts_tasks s d = Some tkd" "tk_status tkd = Awaiting j ses dl" "ts_chans s j = ChanOpen"
  shows "pending s' ses = None \<and> ts_tasks s' c = Some (tkc\<lparr>tk_status := Looping\<rparr>)
    \<and> ts_tasks s' d = Some tkd \<and> ts_chans s' j = TxDropped"
proof -
  note ok = tcp_inv_clients [OF inv]
  have cd: "c \<noteq> d" using c d by auto
  have s': "s' = set_task c (tkc\<lparr>tk_status := Looping\<rparr>) (with_clients (remove_connection_request ses (ts_clients s)) s)"
    using step c(1) by (cases rule: task_step) (use c moved in auto)
  have "awaits s d j ses dl" "at_addr s d (tk_addr tkd)" using d(1,2) by (auto simp: awaits_def at_addr_def)
  from waiting [OF inv this] d(3) obtain ic where ic: "pending s ses = Some ic" "ic_tx ic = j"
    by (auto simp: wait_ok_def requested_def)
  then have "j \<in> set (held (ts_clients s))" by (auto simp: set_held [OF ok])
  moreover have "j \<notin> set (held (remove_connection_request ses (ts_clients s)))"
    using pending_session [OF inv ic(1)] ic(2)
    by (auto simp: set_held [OF tcp_ok_remove_request [OF ok]] pending_of_remove_request [OF ok] split: if_splits)
  ultimately show ?thesis
    using cd d pending_of_remove_request [OF ok] by (simp add: s' with_clients_chans)
qed

text \<open>The two tasks, in every continuation of a state in which the first one's request was dropped.\<close>

lemma cancelled_later:
  assumes inv: "tcp_inv s\<^sub>1" and c: "ts_tasks s\<^sub>1 c = Some tkc" "tk_status tkc = Awaiting i ses dl" "ts_chans s\<^sub>1 i = TxDropped"
    and d: "tk_status tkd = Awaiting j ses dl'"
    and run: "tcp_step\<^sup>*\<^sup>* s\<^sub>1 s\<^sub>2" "tcp_step s\<^sub>2 s\<^sub>3"
  shows "(ts_tasks s\<^sub>2 c = Some tkc \<and> ts_tasks s\<^sub>3 c \<noteq> Some tkc \<longrightarrow> ts_tasks s\<^sub>3 c = Some (tkc\<lparr>tk_status := Removing ses\<rparr>))
    \<and> (ts_tasks s\<^sub>2 c = Some (tkc\<lparr>tk_status := Removing ses\<rparr>) \<and> ts_tasks s\<^sub>3 c \<noteq> ts_tasks s\<^sub>2 c
        \<and> ts_tasks s\<^sub>2 d = Some tkd \<and> ts_chans s\<^sub>2 j = ChanOpen \<longrightarrow>
        pending s\<^sub>3 ses = None \<and> ts_tasks s\<^sub>3 d = Some tkd \<and> ts_chans s\<^sub>3 j = TxDropped)
    \<and> (ts_tasks s\<^sub>2 d = Some tkd \<and> ts_chans s\<^sub>2 j = TxDropped \<and> ts_tasks s\<^sub>3 d \<noteq> Some tkd \<longrightarrow>
        ts_tasks s\<^sub>3 d = Some (tkd\<lparr>tk_status := Removing ses\<rparr>))"
proof -
  let ?tkc = "tkc\<lparr>tk_status := Removing ses\<rparr>"
  have "i < ts_next s\<^sub>1" using c by (intro awaits_in_use [OF inv]) (auto simp: awaits_def)
  from dropped_stays [OF run(1) inv this c(3)] have s\<^sub>2: "ts_chans s\<^sub>2 i = TxDropped" "tcp_inv s\<^sub>2" by auto
  have "ts_tasks s\<^sub>2 c = Some tkc \<Longrightarrow> ts_tasks s\<^sub>3 c \<in> {Some tkc, Some ?tkc}"
    using dropped_step(1) [OF s\<^sub>2(2) run(2) _ c(2) s\<^sub>2(1)] .
  moreover have "ts_tasks s\<^sub>2 d = Some tkd \<Longrightarrow> ts_chans s\<^sub>2 j = TxDropped \<Longrightarrow>
      ts_tasks s\<^sub>3 d \<in> {Some tkd, Some (tkd\<lparr>tk_status := Removing ses\<rparr>)}"
    using dropped_step(1) [OF s\<^sub>2(2) run(2) _ d] .
  moreover have "ts_tasks s\<^sub>2 c = Some ?tkc \<Longrightarrow> ts_tasks s\<^sub>3 c \<noteq> Some ?tkc \<Longrightarrow> ts_tasks s\<^sub>2 d = Some tkd \<Longrightarrow>
      ts_chans s\<^sub>2 j = ChanOpen \<Longrightarrow> pending s\<^sub>3 ses = None \<and> ts_tasks s\<^sub>3 d = Some tkd \<and> ts_chans s\<^sub>3 j = TxDropped"
    using removing_step [OF s\<^sub>2(2) run(2) _ _ _ _ d] by simp
  ultimately show ?thesis by (intro conjI impI; elim conjE) simp_all
qed

text \<open>C35: Two clients that ask for the same session cancel each other. Take any reachable state in which a
  client (task \<open>c\<close>) waits for a session, and let a second client (task \<open>d\<close>) ask for it: the
  request is entered and \<open>d\<close> waits on a channel of its own. From then on, in every
  continuation \<open>s\<^sub>2\<close>, whatever the tasks and the clock do: the first client's request has failed
  (its next own step is to give up, without a countdown, and so is never a confirmation); its
  own step after that removes the request of the second one, if that is still pending, whose
  channel thereby loses its sender while \<open>d\<close> waits on; and then \<open>d\<close>'s next own step is to give up
  too, without a countdown. All three steps can be taken one after the other at once, without a
  clock being read.\<close>

theorem tcp_concurrent_requests_cancel:
  assumes "tcp_reachable s" and "ts_tasks s c = Some tkc" "tk_status tkc = Awaiting i ses dl" "ts_chans s i = ChanOpen"
    and "ts_tasks s d = Some tk" "tk_status tk = Looping" and "now \<le> now'"
  shows "\<exists>s\<^sub>1 j tkd dl'. s\<^sub>1 = handle_msg now now' True ok (TcpConnectionRequest ses) d tk s \<and> tcp_step s s\<^sub>1
    \<and> ts_tasks s\<^sub>1 c = Some tkc \<and> ts_tasks s\<^sub>1 d = Some tkd \<and> tk_status tkd = Awaiting j ses dl' \<and> ts_chans s\<^sub>1 j = ChanOpen
    \<and> (\<forall>s\<^sub>2 s\<^sub>3. tcp_step\<^sup>*\<^sup>* s\<^sub>1 s\<^sub>2 \<and> tcp_step s\<^sub>2 s\<^sub>3 \<longrightarrow>
        (ts_tasks s\<^sub>2 c = Some tkc \<and> ts_tasks s\<^sub>3 c \<noteq> Some tkc \<longrightarrow> ts_tasks s\<^sub>3 c = Some (tkc\<lparr>tk_status := Removing ses\<rparr>))
      \<and> (ts_tasks s\<^sub>2 c = Some (tkc\<lparr>tk_status := Removing ses\<rparr>) \<and> ts_tasks s\<^sub>3 c \<noteq> ts_tasks s\<^sub>2 c
          \<and> ts_tasks s\<^sub>2 d = Some tkd \<and> ts_chans s\<^sub>2 j = ChanOpen \<longrightarrow>
          pending_of (ts_clients s\<^sub>3) ses = None \<and> ts_tasks s\<^sub>3 d = Some tkd \<and> ts_chans s\<^sub>3 j = TxDropped)
      \<and> (ts_tasks s\<^sub>2 d = Some tkd \<and> ts_chans s\<^sub>2 j = TxDropped \<and> ts_tasks s\<^sub>3 d \<noteq> Some tkd \<longrightarrow>
          ts_tasks s\<^sub>3 d = Some (tkd\<lparr>tk_status := Removing ses\<rparr>)))
    \<and> (\<exists>s\<^sub>2 s\<^sub>3 s\<^sub>4. tcp_step s\<^sub>1 s\<^sub>2 \<and> s\<^sub>2 = set_task c (tkc\<lparr>tk_status := Removing ses\<rparr>) s\<^sub>1
        \<and> tcp_step s\<^sub>2 s\<^sub>3 \<and> ts_tasks s\<^sub>3 c = Some (tkc\<lparr>tk_status := Looping\<rparr>)
        \<and> tcp_step s\<^sub>3 s\<^sub>4 \<and> s\<^sub>4 = set_task d (tkd\<lparr>tk_status := Removing ses\<rparr>) s\<^sub>3)"
proof -
  note inv = tcp_inv_reachable [OF assms(1)]
  let ?s\<^sub>1 = "handle_msg now now' True ok (TcpConnectionRequest ses) d tk s" and ?j = "ts_next s"
  note s\<^sub>1 = second_request [OF inv assms(2-6), where now = now and now' = now' and ok = ok]
  from s\<^sub>1(6) obtain tkd dl' where d: "ts_tasks ?s\<^sub>1 d = Some tkd" "tk_status tkd = Awaiting ?j ses dl'"
    by (auto simp: awaits_def)
  have step\<^sub>1: "tcp_step s ?s\<^sub>1" using assms(5-7) by (rule tcp_step.message)
  have inv\<^sub>1: "tcp_inv ?s\<^sub>1" using step\<^sub>1 inv by (rule tcp_inv_step)
  let ?tkc = "tkc\<lparr>tk_status := Removing ses\<rparr>"
  note later = cancelled_later [OF inv\<^sub>1 s\<^sub>1(2) assms(3) s\<^sub>1(1) d(2)]
  let ?s\<^sub>2 = "set_task c ?tkc ?s\<^sub>1"
  let ?s\<^sub>3 = "set_task c (?tkc\<lparr>tk_status := Looping\<rparr>) (with_clients (remove_connection_request ses (ts_clients ?s\<^sub>2)) ?s\<^sub>2)"
  have cd: "c \<noteq> d" using assms(2,3,5,6) by auto
  have step\<^sub>2: "tcp_step ?s\<^sub>1 ?s\<^sub>2" using s\<^sub>1(2) assms(3) s\<^sub>1(1) by (rule tcp_step.sender_gone)
  have step\<^sub>3: "tcp_step ?s\<^sub>2 ?s\<^sub>3" by (rule tcp_step.remove) simp_all
  have "tkc\<lparr>tk_status := Looping\<rparr> \<noteq> ?tkc" by (cases tkc) simp
  then have "ts_tasks ?s\<^sub>3 d = Some tkd \<and> ts_chans ?s\<^sub>3 ?j = TxDropped"
    using removing_step [OF tcp_inv_step [OF step\<^sub>2 inv\<^sub>1] step\<^sub>3, of c ?tkc ses d tkd ?j dl'] d s\<^sub>1(5) cd by simp
  then have step\<^sub>4: "tcp_step ?s\<^sub>3 (set_task d (tkd\<lparr>tk_status := Removing ses\<rparr>) ?s\<^sub>3)"
    using d(2) by (blast intro: tcp_step.sender_gone)
  moreover have "ts_tasks ?s\<^sub>3 c = Some (tkc\<lparr>tk_status := Looping\<rparr>)" by simp
  ultimately show ?thesis using later step\<^sub>1 step\<^sub>2 step\<^sub>3 step\<^sub>4 s\<^sub>1(2,5) d by blast
qed

theorem tcp_concurrent_requests_cancel_witness:
  "\<exists>s\<^sub>1 j tkd dl'. s\<^sub>1 = handle_msg 3 3 True True (TcpConnectionRequest 42) 3 (new_task (ex_at 3))
        (set_task 3 (new_task (ex_at 3)) ex_run\<^sub>2)
    \<and> ts_tasks s\<^sub>1 3 = Some tkd \<and> tk_status tkd = Awaiting j 42 dl' \<and> ts_chans s\<^sub>1 j = ChanOpen
    \<and> (\<exists>s\<^sub>2 s\<^sub>3 s\<^sub>4. tcp_step s\<^sub>1 s\<^sub>2 \<and> tcp_step s\<^sub>2 s\<^sub>3 \<and> tcp_step s\<^sub>3 s\<^sub>4
        \<and> s\<^sub>4 = set_task 3 (tkd\<lparr>tk_status := Removing 42\<rparr>) s\<^sub>3)"
proof -
  let ?s = "set_task 3 (new_task (ex_at 3)) ex_run\<^sub>2"
  let ?tkc = "\<lparr>tk_addr = ex_at 2, tk_status = Awaiting 0 42 (2 + from_millis 5000), tk_sent = [RemoteAddr (ex_at 1)]\<rparr>"
  have "tcp_step ex_run\<^sub>2 ?s" by (rule tcp_step.accept) (simp add: ex_run\<^sub>2_eq)
  with ex_reachable(2) have reach: "tcp_reachable ?s" by (rule tcp_reachable.step)
  have "ts_tasks ?s 1 = Some ?tkc" "tk_status ?tkc = Awaiting 0 42 (2 + from_millis 5000)" "ts_chans ?s 0 = ChanOpen"
    "ts_tasks ?s 3 = Some (new_task (ex_at 3))" "tk_status (new_task (ex_at 3)) = Looping" "(3::instant) \<le> 3"
    by (simp_all add: ex_run\<^sub>2_eq) (simp add: new_task_def)
  from tcp_concurrent_requests_cancel [OF reach this, of True] show ?thesis
    by (elim exE conjE) (intro exI conjI, assumption+)
qed

end
