(* ===== verification/Tcp_Client.thy ===== *)
theory Tcp_Client
  imports Tcp_State Interface_Tracker
begin

text \<open>
  The two ends that use the TCP rendezvous server: \<open>P2PTcpConnector\<close> (\<open>src/tcp/connector.rs\<close>),
  \<open>P2PTcpService\<close> (\<open>src/tcp/service.rs\<close>), and the socket they share between connections,
  \<open>ReusableTcpSocket\<close> (\<open>src/tcp/reusable_tcp_socket.rs\<close>). The message channel of the crate
  \<open>reprise_net_util\<close> is known by what its calls return.
\<close>

subsection \<open>The reusable socket\<close>

text \<open>
  The parent socket's port, and the interface tracker in its \<open>OnceCell\<close>. A socket made of it
  has a local address and port and may be bound to a device.
\<close>

record reusable_socket =
  rs_port :: u16
  rs_tracker :: "interface_tracker option"

record tcp_socket =
  ts_ip :: ipv4
  ts_port :: u16
  ts_device :: "string option"

text \<open>
  \<open>new_inner\<close>: \<open>port\<close> is the port the operating system gave to the parent socket, \<open>None\<close> if one
  of the unwrapped socket calls failed.
\<close>

definition rs_new_inner :: "u16 option \<Rightarrow> interface_tracker option \<Rightarrow> (reusable_socket, unit) res" where
  "rs_new_inner port tracker = (case port of
      None \<Rightarrow> Panic
    | Some p \<Rightarrow> Ok \<lparr>rs_port = p, rs_tracker = Some (case tracker of Some t \<Rightarrow> t | None \<Rightarrow> tracker_new)\<rparr>)"

text \<open>
  \<open>clone\<close>: what it reads from its surroundings is the interfaces present and whether the
  unwrapped \<open>bind\<close> and \<open>bind_device\<close> (and the calls before them) succeed.
\<close>

record clone_env =
  cl_interfaces :: "interface list"
  cl_bind_ok :: bool
  cl_device_ok :: bool

definition rs_clone :: "bool \<Rightarrow> clone_env \<Rightarrow> reusable_socket \<Rightarrow> (tcp_socket \<times> reusable_socket, unit) res" where
  "rs_clone windows env rs =
    (let tracker = (case rs_tracker rs of Some t \<Rightarrow> t | None \<Rightarrow> tracker_new);
         (best, tracker) = current_interface (cl_interfaces env) tracker;
         rs = rs\<lparr>rs_tracker := Some tracker\<rparr>
     in bind_res
          (case best of
             Some i \<Rightarrow> if windows then (case ip_of i of IpV4 addr \<Rightarrow> Ok addr | IpV6 _ \<Rightarrow> Panic) else Ok (Ipv4 0 0 0 0)
           | None \<Rightarrow> Ok (Ipv4 0 0 0 0))
          (\<lambda>addr.
            if \<not> cl_bind_ok env then Panic
            else (case best of
                Some i \<Rightarrow>
                  if windows then Ok (\<lparr>ts_ip = addr, ts_port = rs_port rs, ts_device = None\<rparr>, rs)
                  else if cl_device_ok env
                  then Ok (\<lparr>ts_ip = addr, ts_port = rs_port rs, ts_device = Some (if_name i)\<rparr>, rs)
                  else Panic
              | None \<Rightarrow> Ok (\<lparr>ts_ip = addr, ts_port = rs_port rs, ts_device = None\<rparr>, rs))))"

text \<open>\<open>new\<close> also makes one clone, on which it listens for a moment; \<open>listen_ok\<close> is its unwrap.\<close>

definition rs_new :: "bool \<Rightarrow> u16 option \<Rightarrow> clone_env \<Rightarrow> bool \<Rightarrow> (reusable_socket, unit) res" where
  "rs_new windows port env listen_ok =
    bind_res (rs_new_inner port None) (\<lambda>rs.
    bind_res (rs_clone windows env rs) (\<lambda>(listener, rs).
    if listen_ok then Ok rs else Panic))"

text \<open>\<open>rotate_port\<close> returns the new socket and what is left of the old one.\<close>

definition rs_rotate_port :: "u16 option \<Rightarrow> reusable_socket \<Rightarrow> (reusable_socket \<times> reusable_socket, unit) res" where
  "rs_rotate_port port rs =
    bind_res (rs_new_inner port (rs_tracker rs)) (\<lambda>new. Ok (new, rs\<lparr>rs_tracker := None\<rparr>))"

subsection \<open>Exchanges with the server\<close>

datatype io_error = TimedOut | IoError nat

datatype channel_error = ConnectionClosed | ChannelFault nat

datatype request_error =
    P2pConnectionFailed
  | NoSessionId
  | ConnectionFailed io_error
  | NoResponse
  | ChannelError channel_error
  | WriteError nat
  | NoPendingConnections

text \<open>How a \<open>connect\<close> under a timeout and a \<open>recv_exact_msg\<close> can end.\<close>

datatype connect_result = Connected | ConnectFailed nat | ConnectTimedOut

datatype 'a received = Received 'a | NoMessage | RecvFault channel_error

text \<open>
  One exchange: the clone and the connection to the server, the send (with the error it
  failed with), the address and the countdown received, when the countdown was received and how
  long after its pause the attempts begin, and for each attempt the instant at the top of the
  loop, its clone and its outcome.
\<close>

record exchange =
  ex_clone :: clone_env
  ex_connect :: connect_result
  ex_send :: "nat option"
  ex_remote :: "socket_addr received"
  ex_countdown :: "duration received"
  ex_countdown_at :: instant
  ex_delay :: duration
  ex_attempts :: "(instant \<times> clone_env \<times> connect_result) list"

text \<open>The retry loop; \<open>None\<close> while it is still running when the attempts end.\<close>

fun connect_loop ::
  "bool \<Rightarrow> instant \<Rightarrow> socket_addr \<Rightarrow> (instant \<times> clone_env \<times> connect_result) list \<Rightarrow> reusable_socket \<Rightarrow>
   ((tcp_socket \<times> socket_addr, request_error) res \<times> reusable_socket) option" where
  "connect_loop windows deadline addr [] rs = None"
| "connect_loop windows deadline addr ((now, env, outcome) # as) rs =
     (if now < deadline then
        (case rs_clone windows env rs of
           Ok (socket, rs') \<Rightarrow>
             (case outcome of
                Connected \<Rightarrow> Some (Ok (socket, addr), rs')
              | _ \<Rightarrow> connect_loop windows deadline addr as rs')
         | _ \<Rightarrow> Some (Panic, rs))
      else Some (Err P2pConnectionFailed, rs))"

text \<open>The deadline of the attempts: half a second from the end of the pause, which is at most two seconds.\<close>

definition attempts_deadline :: "exchange \<Rightarrow> duration \<Rightarrow> instant" where
  "attempts_deadline ex dur = ex_countdown_at ex + min dur (from_secs 2) + ex_delay ex + from_millis 500"

text \<open>
  The part both ends share: connect and send, then \<open>await\<close> for the address and the countdown
  with the errors each end reports, then the attempts.
\<close>

definition connect_and_send ::
  "bool \<Rightarrow> exchange \<Rightarrow> reusable_socket \<Rightarrow> (unit, request_error) res \<times> reusable_socket" where
  "connect_and_send windows ex rs =
    (case rs_clone windows (ex_clone ex) rs of
       Ok (socket, rs') \<Rightarrow>
         (case ex_connect ex of
            Connected \<Rightarrow> (case ex_send ex of None \<Rightarrow> Ok () | Some e \<Rightarrow> Err (WriteError e), rs')
          | ConnectTimedOut \<Rightarrow> (Err (ConnectionFailed TimedOut), rs')
          | ConnectFailed e \<Rightarrow> (Err (ConnectionFailed (IoError e)), rs'))
     | _ \<Rightarrow> (Panic, rs))"

subsection \<open>The connector\<close>

record tcp_connector =
  cn_nat_server :: socket_addr
  cn_parent :: reusable_socket

definition connector_new :: "socket_addr \<Rightarrow> bool \<Rightarrow> u16 option \<Rightarrow> clone_env \<Rightarrow> bool \<Rightarrow> (tcp_connector, unit) res" where
  "connector_new nat_addr windows port env listen_ok =
    bind_res (rs_new windows port env listen_ok) (\<lambda>rs. Ok \<lparr>cn_nat_server = nat_addr, cn_parent = rs\<rparr>)"

text \<open>\<open>scan_connections\<close> sends \<open>scan_request\<close> and waits for the list.\<close>

definition scan_request :: to_nat_server_msg where
  "scan_request = GetClients ''test_app''"

definition scan_connections ::
  "bool \<Rightarrow> exchange \<Rightarrow> client_announcement list received \<Rightarrow> tcp_connector \<Rightarrow>
   (client_announcement list, request_error) res \<times> tcp_connector" where
  "scan_connections windows ex answer cn =
    (let (sent, rs) = connect_and_send windows ex (cn_parent cn);
         cn = cn\<lparr>cn_parent := rs\<rparr>
     in (bind_res sent (\<lambda>_. case answer of
           Received clients \<Rightarrow> Ok clients
         | NoMessage \<Rightarrow> Err NoResponse
         | RecvFault e \<Rightarrow> Err (ChannelError e)), cn))"

text \<open>
  \<open>connect_client\<close>; \<open>port\<close> is what the system gives to the socket that \<open>rotate_port\<close> makes,
  which is then dropped.
\<close>

definition connect_client ::
  "bool \<Rightarrow> exchange \<Rightarrow> u16 option \<Rightarrow> tcp_connector \<Rightarrow>
   ((tcp_socket \<times> socket_addr, request_error) res \<times> tcp_connector) option" where
  "connect_client windows ex port cn =
    (let (sent, rs) = connect_and_send windows ex (cn_parent cn);
         cn = cn\<lparr>cn_parent := rs\<rparr>
     in case sent of
          Panic \<Rightarrow> Some (Panic, cn)
        | Err e \<Rightarrow> Some (Err e, cn)
        | Ok _ \<Rightarrow>
            (case ex_remote ex of
               NoMessage \<Rightarrow> Some (Err NoSessionId, cn)
             | RecvFault e \<Rightarrow> Some (Err (if e = ConnectionClosed then NoSessionId else ChannelError e), cn)
             | Received remote_addr \<Rightarrow>
                 (case ex_countdown ex of
                    NoMessage \<Rightarrow> Some (Err NoResponse, cn)
                  | RecvFault e \<Rightarrow> Some (Err (ChannelError e), cn)
                  | Received dur \<Rightarrow>
                      (case connect_loop windows (attempts_deadline ex dur) remote_addr (ex_attempts ex) rs of
                         None \<Rightarrow> None
                       | Some (Panic, rs) \<Rightarrow> Some (Panic, cn\<lparr>cn_parent := rs\<rparr>)
                       | Some (res, rs) \<Rightarrow>
                           (case rs_rotate_port port rs of
                              Ok (new, rs) \<Rightarrow> Some (res, cn\<lparr>cn_parent := rs\<rparr>)
                            | _ \<Rightarrow> Some (Panic, cn\<lparr>cn_parent := rs\<rparr>))))))"

subsection \<open>The service\<close>

record tcp_service =
  sv_nat_server :: socket_addr
  sv_parent :: reusable_socket
  sv_adv_data :: client_announcement_data

definition service_new ::
  "socket_addr \<Rightarrow> client_announcement_data \<Rightarrow> bool \<Rightarrow> u16 option \<Rightarrow> clone_env \<Rightarrow> bool \<Rightarrow> (tcp_service, unit) res" where
  "service_new nat_addr adv windows port env listen_ok =
    bind_res (rs_new windows port env listen_ok)
      (\<lambda>rs. Ok \<lparr>sv_nat_server = nat_addr, sv_parent = rs, sv_adv_data = adv\<rparr>)"

definition set_adv_data :: "client_announcement_data \<Rightarrow> tcp_service \<Rightarrow> tcp_service" where
  "set_adv_data adv sv = sv\<lparr>sv_adv_data := adv\<rparr>"

definition service_poll_accept ::
  "bool \<Rightarrow> exchange \<Rightarrow> tcp_service \<Rightarrow>
   ((tcp_socket \<times> socket_addr, request_error) res \<times> tcp_service) option" where
  "service_poll_accept windows ex sv =
    (let (sent, rs) = connect_and_send windows ex (sv_parent sv);
         sv = sv\<lparr>sv_parent := rs\<rparr>
     in case sent of
          Panic \<Rightarrow> Some (Panic, sv)
        | Err e \<Rightarrow> Some (Err e, sv)
        | Ok _ \<Rightarrow>
            (case ex_remote ex of
               NoMessage \<Rightarrow> Some (Err NoResponse, sv)
             | RecvFault e \<Rightarrow> Some (Err (if e = ConnectionClosed then NoPendingConnections else ChannelError e), sv)
             | Received remote_addr \<Rightarrow>
                 (case ex_countdown ex of
                    NoMessage \<Rightarrow> Some (Err NoResponse, sv)
                  | RecvFault e \<Rightarrow> Some (Err (ChannelError e), sv)
                  | Received dur \<Rightarrow>
                      map_option (\<lambda>(res, rs). (res, sv\<lparr>sv_parent := rs\<rparr>))
                        (connect_loop windows (attempts_deadline ex dur) remote_addr (ex_attempts ex) rs))))"

subsection \<open>What the exchanges keep\<close>

lemma rs_clone_keeps:
  assumes "rs_clone windows env rs = Ok (sock, rs')"
  shows "ts_port sock = rs_port rs" "rs_port rs' = rs_port rs"
  using assms
  by (auto simp: rs_clone_def Let_def split: prod.splits option.splits if_splits)

lemma rs_clone_not_Err [simp]: "rs_clone windows env rs \<noteq> Err e"
  by (auto simp: rs_clone_def Let_def bind_res_eq_Err split: prod.splits option.splits if_splits ip_addr.splits)

lemma rs_clone_returns:
  assumes "cl_bind_ok env" and "cl_device_ok env"
  shows "\<exists>sock rs'. rs_clone windows env rs = Ok (sock, rs')"
proof -
  obtain best tr where c: "current_interface (cl_interfaces env) (case rs_tracker rs of Some t \<Rightarrow> t | None \<Rightarrow> tracker_new) = (best, tr)"
    by (cases "current_interface (cl_interfaces env) (case rs_tracker rs of Some t \<Rightarrow> t | None \<Rightarrow> tracker_new)") auto
  show ?thesis
  proof (cases best)
    case None
    with c assms show ?thesis by (simp add: rs_clone_def)
  next
    case (Some i)
    with c current_interface_v4 obtain a where "ip_of i = IpV4 a" by (metis fst_conv)
    with Some c assms show ?thesis by (cases windows) (simp_all add: rs_clone_def)
  qed
qed

lemma connect_loop_result:
  assumes "connect_loop windows deadline addr as rs = Some (r, rs')"
  shows "rs_port rs' = rs_port rs"
    and "r = Ok (sock, a) \<Longrightarrow> a = addr \<and> ts_port sock = rs_port rs
      \<and> (\<exists>now env. (now, env, Connected) \<in> set as \<and> now < deadline)"
  using assms
proof (induction windows deadline addr "as" rs rule: connect_loop.induct)
  case (2 windows deadline addr now env outcome "as" rs)
  {
    case 1
    then show ?case
      using "2.IH" by (auto split: if_splits res.splits connect_result.splits dest: rs_clone_keeps)
  next
    case 2
    then show ?case
      using "2.IH" rs_clone_keeps
      by (fastforce split: if_splits res.splits connect_result.splits)
  }
qed auto

lemma connect_loop_not_pending:
  "connect_loop windows deadline addr as rs \<noteq> Some (Err NoPendingConnections, rs')"
  by (induction windows deadline addr "as" rs rule: connect_loop.induct)
    (auto split: if_splits res.splits connect_result.splits)

lemma connect_and_send_port: "connect_and_send windows ex rs = (r, rs') \<Longrightarrow> rs_port rs' = rs_port rs"
  by (auto simp: connect_and_send_def split: res.splits connect_result.splits dest: rs_clone_keeps(2))

lemma rs_rotate_port_old: "rs_rotate_port port rs = Ok (new, rs') \<Longrightarrow> rs_port rs' = rs_port rs \<and> rs_tracker rs' = None"
  by (auto simp: rs_rotate_port_def)

text \<open>The outcomes of the exchange that lead to no attempt leave the connector with the old port.\<close>

lemma connect_client_early:
  assumes "connect_client windows ex port cn = Some (r, cn')"
    and "\<nexists>rs a dur. connect_and_send windows ex (cn_parent cn) = (Ok (), rs) \<and> ex_remote ex = Received a
      \<and> ex_countdown ex = Received dur"
  shows "(\<forall>c. r \<noteq> Ok c) \<and> rs_port (cn_parent cn') = rs_port (cn_parent cn)"
proof -
  obtain sent rs where cs: "connect_and_send windows ex (cn_parent cn) = (sent, rs)" by fastforce
  note u = assms(1) [unfolded connect_client_def cs Let_def case_prod_conv] and port = connect_and_send_port [OF cs]
  from u port assms(2) [unfolded cs] show ?thesis
    by (cases sent; cases "ex_remote ex"; cases "ex_countdown ex") auto
qed

lemma connect_client_attempts:
  assumes "connect_client windows ex port cn = Some (r, cn')"
    and "connect_and_send windows ex (cn_parent cn) = (Ok (), rs)" "ex_remote ex = Received a" "ex_countdown ex = Received dur"
  obtains res rs' where "connect_loop windows (attempts_deadline ex dur) a (ex_attempts ex) rs = Some (res, rs')"
    "rs_port (cn_parent cn') = rs_port (cn_parent cn)" "r = res \<or> r = Panic"
    "(\<exists>c. r = Ok c) \<longrightarrow> rs_tracker (cn_parent cn') = None"
proof -
  note u = assms(1) [unfolded connect_client_def assms(2-4) Let_def case_prod_conv res.case received.case]
  from u obtain res rs' where l: "connect_loop windows (attempts_deadline ex dur) a (ex_attempts ex) rs = Some (res, rs')"
    by (cases "connect_loop windows (attempts_deadline ex dur) a (ex_attempts ex) rs") auto
  note port = connect_loop_result(1) [OF l, unfolded connect_and_send_port [OF assms(2)]]
  note u = u [unfolded l option.case case_prod_conv]
  from u port have "rs_port (cn_parent cn') = rs_port (cn_parent cn) \<and> (r = res \<or> r = Panic)
      \<and> ((\<exists>c. r = Ok c) \<longrightarrow> rs_tracker (cn_parent cn') = None)"
    by (cases res; cases "rs_rotate_port port rs'") (auto dest: rs_rotate_port_old)
  with that [OF l] show ?thesis by blast
qed

subsection \<open>Properties\<close>

definition ex_clone_env :: clone_env where
  "ex_clone_env = \<lparr>cl_interfaces = [], cl_bind_ok = True, cl_device_ok = True\<rparr>"

definition ex_exchange :: exchange where
  "ex_exchange = \<lparr>ex_clone = ex_clone_env, ex_connect = Connected, ex_send = None, ex_remote = Received (ex_at 7),
     ex_countdown = Received (from_millis 500), ex_countdown_at = 0, ex_delay = 0,
     ex_attempts = [(from_millis 600, ex_clone_env, ConnectFailed 111), (from_millis 700, ex_clone_env, Connected)]\<rparr>"

definition ex_socket :: reusable_socket where
  "ex_socket = \<lparr>rs_port = 5000, rs_tracker = Some tracker_new\<rparr>"

lemma ex_clone: "rs_clone False ex_clone_env ex_socket =
    Ok (\<lparr>ts_ip = Ipv4 0 0 0 0, ts_port = 5000, ts_device = None\<rparr>, ex_socket)"
  by (simp add: rs_clone_def ex_clone_env_def ex_socket_def current_interface_def best_of_def)

lemma ex_sends: "connect_and_send False ex_exchange ex_socket = (Ok (), ex_socket)"
  using ex_clone by (simp add: connect_and_send_def ex_exchange_def)

lemma ex_loop: "connect_loop False (attempts_deadline ex_exchange (from_millis 500)) (ex_at 7) (ex_attempts ex_exchange) ex_socket
    = Some (Ok (\<lparr>ts_ip = Ipv4 0 0 0 0, ts_port = 5000, ts_device = None\<rparr>, ex_at 7), ex_socket)"
proof -
  have "from_millis 600 < attempts_deadline ex_exchange (from_millis 500)"
    "from_millis 700 < attempts_deadline ex_exchange (from_millis 500)"
    by (simp_all add: attempts_deadline_def ex_exchange_def time_simps)
  moreover have "ex_attempts ex_exchange =
      [(from_millis 600, ex_clone_env, ConnectFailed 111), (from_millis 700, ex_clone_env, Connected)]"
    by (simp add: ex_exchange_def)
  ultimately show ?thesis by (simp add: ex_clone)
qed

text \<open>The connector returns a connection only if the server named that address and gave the countdown,
  and an attempt to connect begun within half a second of the end of the countdown's pause
  succeeded; the connection leaves from the port the connector used towards the server. The port
  is not rotated: whatever the outcome, the next exchange leaves from the same port.\<close>

lemma connector_connects:
  assumes "connect_client windows ex port cn = Some (r, cn')"
  shows "rs_port (cn_parent cn') = rs_port (cn_parent cn)
    \<and> (\<forall>sock a. r = Ok (sock, a) \<longrightarrow> ex_remote ex = Received a \<and> ts_port sock = rs_port (cn_parent cn)
        \<and> (\<exists>dur now env. ex_countdown ex = Received dur \<and> (now, env, Connected) \<in> set (ex_attempts ex)
            \<and> now < ex_countdown_at ex + min dur (from_secs 2) + ex_delay ex + from_millis 500))"
proof (cases "\<exists>rs a dur. connect_and_send windows ex (cn_parent cn) = (Ok (), rs) \<and> ex_remote ex = Received a
      \<and> ex_countdown ex = Received dur")
  case True
  then obtain rs a dur where e: "connect_and_send windows ex (cn_parent cn) = (Ok (), rs)" "ex_remote ex = Received a"
    "ex_countdown ex = Received dur" by blast
  from connect_client_attempts [OF assms e] obtain res rs' where
    l: "connect_loop windows (attempts_deadline ex dur) a (ex_attempts ex) rs = Some (res, rs')"
    and r: "rs_port (cn_parent cn') = rs_port (cn_parent cn)" "r = res \<or> r = Panic" by blast
  with connect_and_send_port [OF e(1)] connect_loop_result(2) [OF l] e(2,3) show ?thesis
    by (auto simp: attempts_deadline_def)
next
  case False
  from connect_client_early [OF assms False] show ?thesis by blast
qed

lemma connector_connects_witness:
  "\<exists>r cn'. connect_client False ex_exchange (Some 6000) \<lparr>cn_nat_server = ex_at 9, cn_parent = ex_socket\<rparr> = Some (r, cn')
    \<and> rs_port (cn_parent cn') = 5000"
proof -
  let ?cn = "\<lparr>cn_nat_server = ex_at 9, cn_parent = ex_socket\<rparr>"
  have e: "ex_remote ex_exchange = Received (ex_at 7)" "ex_countdown ex_exchange = Received (from_millis 500)"
    by (simp_all add: ex_exchange_def)
  obtain r cn' where c: "connect_client False ex_exchange (Some 6000) ?cn = Some (r, cn')"
    by (simp add: connect_client_def ex_sends e ex_loop rs_rotate_port_def rs_new_inner_def)
  from connector_connects [OF c] c show ?thesis by (simp add: ex_socket_def)
qed

text \<open>The service returns a connection only under the same conditions, to the address of the requester
  that the server named; without a pending request it reports that, or that the server did not
  answer.\<close>

lemma service_accepts:
  assumes "service_poll_accept windows ex sv = Some (r, sv')"
  shows "rs_port (sv_parent sv') = rs_port (sv_parent sv) \<and> sv_adv_data sv' = sv_adv_data sv
    \<and> (\<forall>sock a. r = Ok (sock, a) \<longrightarrow> ex_remote ex = Received a \<and> ts_port sock = rs_port (sv_parent sv)
        \<and> (\<exists>dur now env. ex_countdown ex = Received dur \<and> (now, env, Connected) \<in> set (ex_attempts ex)
            \<and> now < ex_countdown_at ex + min dur (from_secs 2) + ex_delay ex + from_millis 500))
    \<and> (r = Err NoPendingConnections \<longrightarrow> ex_remote ex = RecvFault ConnectionClosed)"
proof -
  obtain sent rs where cs: "connect_and_send windows ex (sv_parent sv) = (sent, rs)"
    by (cases "connect_and_send windows ex (sv_parent sv)") auto
  note port = connect_and_send_port [OF cs]
  have early: "sent \<noteq> Err NoPendingConnections"
    using cs by (auto simp: connect_and_send_def split: res.splits connect_result.splits option.splits)
  note u = assms [unfolded service_poll_accept_def cs Let_def case_prod_conv]
  show ?thesis
  proof (cases "\<exists>a dur. sent = Ok () \<and> ex_remote ex = Received a \<and> ex_countdown ex = Received dur")
    case False
    with u port early show ?thesis
      by (auto split: res.splits received.splits if_splits)
  next
    case True
    then obtain a dur where t: "sent = Ok ()" "ex_remote ex = Received a" "ex_countdown ex = Received dur" by blast
    note u = u [unfolded t res.case received.case]
    from u obtain rs' where l: "connect_loop windows (attempts_deadline ex dur) a (ex_attempts ex) rs = Some (r, rs')"
      and sv: "sv' = sv\<lparr>sv_parent := rs'\<rparr>" by auto
    have "r \<noteq> Err NoPendingConnections" using connect_loop_not_pending l by metis
    with port t sv connect_loop_result(1) [OF l] connect_loop_result(2) [OF l] show ?thesis
      by (auto simp: attempts_deadline_def)
  qed
qed

lemma service_accepts_witness:
  "\<exists>r sv'. service_poll_accept False ex_exchange \<lparr>sv_nat_server = ex_at 9, sv_parent = ex_socket, sv_adv_data = ex_service\<rparr>
      = Some (r, sv') \<and> rs_port (sv_parent sv') = 5000"
proof -
  let ?sv = "\<lparr>sv_nat_server = ex_at 9, sv_parent = ex_socket, sv_adv_data = ex_service\<rparr>"
  have e: "ex_remote ex_exchange = Received (ex_at 7)" "ex_countdown ex_exchange = Received (from_millis 500)"
    by (simp_all add: ex_exchange_def)
  obtain r sv' where c: "service_poll_accept False ex_exchange ?sv = Some (r, sv')"
    by (simp add: service_poll_accept_def ex_sends e ex_loop)
  from service_accepts [OF c] c show ?thesis by (simp add: ex_socket_def)
qed

end
