(* ===== verification/Tcp_System.thy ===== *)
theory Tcp_System
  imports Tcp_Agreement Tcp_Client
begin

text \<open>
  The TCP server (\<open>src/server.rs\<close>) with an end of a connection, a connector or a service
  (\<open>src/tcp/connector.rs\<close>, \<open>src/tcp/service.rs\<close>). What joins them is \<open>heard\<close>: an end sends one
  request on its connection, and the messages it then receives are the first that the server's
  task for the connection has sent, in their order.
\<close>

definition heard :: "tcp_task \<Rightarrow> exchange \<Rightarrow> bool" where
  "heard tk ex = (case ex_remote ex of
      Received a \<Rightarrow> (case ex_countdown ex of
          Received dur \<Rightarrow> take 2 (tk_sent tk) = [RemoteAddr a, StartCountdown dur]
        | _ \<Rightarrow> take 1 (tk_sent tk) = [RemoteAddr a])
    | _ \<Rightarrow> True)"

subsection \<open>The address that a requester is told\<close>

text \<open>The session was announced on a connection from the address.\<close>

definition announced_in :: "tcp_server \<Rightarrow> u64 \<Rightarrow> socket_addr \<Rightarrow> bool" where
  "announced_in s ses a \<longleftrightarrow> (\<exists>s\<^sub>0 d tkd now now' ok\<^sub>1 ok\<^sub>2 ann. tcp_reachable s\<^sub>0 \<and> ts_tasks s\<^sub>0 d = Some tkd
     \<and> tk_status tkd = Looping \<and> tk_addr tkd = a \<and> now \<le> now' \<and> ad_session ann = ses
     \<and> tcp_step\<^sup>*\<^sup>* (handle_msg now now' ok\<^sub>1 ok\<^sub>2 (AnnounceAndCheck ann) d tkd s\<^sub>0) s)"

lemma announced_in_step: "announced_in s ses a \<Longrightarrow> tcp_step s s' \<Longrightarrow> announced_in s' ses a"
  unfolding announced_in_def by (blast intro: rtranclp.rtrancl_into_rtrancl)

lemma announced_now:
  assumes "tcp_reachable s" and "ts_tasks s d = Some tkd" "tk_status tkd = Looping" and "now \<le> now'"
  shows "announced_in (handle_msg now now' ok\<^sub>1 ok\<^sub>2 (AnnounceAndCheck ann) d tkd s) (ad_session ann) (tk_addr tkd)"
  unfolding announced_in_def using assms by blast

text \<open>What the operations do to the address of an announced session.\<close>

definition keeps_addr :: "tcp_state \<Rightarrow> tcp_state \<Rightarrow> bool" where
  "keeps_addr clients clients' \<longleftrightarrow> (\<forall>ses cl'. hm_get clients' ses = Some cl' \<longrightarrow>
     (\<exists>cl. hm_get clients ses = Some cl \<and> kc_addr cl' = kc_addr cl))"

lemma keeps_addr_refl: "keeps_addr clients clients"
  by (simp add: keeps_addr_def)

lemma keeps_addr_cleanup: "tcp_ok clients \<Longrightarrow> keeps_addr clients (poll_update now clients)"
  by (auto simp: keeps_addr_def hm_get_poll_update split: option.splits if_splits)

lemma keeps_addr_remove: "tcp_ok clients \<Longrightarrow> keeps_addr clients (remove_connection_request ses clients)"
  by (drule tcp_okD(1)) (auto simp: keeps_addr_def remove_connection_request_def split: option.splits if_splits)

lemma keeps_addr_request:
  "tcp_ok clients \<Longrightarrow> insert_connection_request now ch ses addr clients = (r, clients') \<Longrightarrow> keeps_addr clients clients'"
  by (drule tcp_okD(1)) (auto simp: keeps_addr_def insert_connection_request_def split: option.splits if_splits)

lemma announce_addr:
  "tcp_ok clients \<Longrightarrow> announce_check now now' a addr clients = (r, clients') \<Longrightarrow>
    hm_get clients' ses = (if ses = ad_session a then Some \<lparr>last_announcement = now, kc_data = a, kc_addr = addr,
        pending_connection = pending_of clients' ses\<rparr> else hm_get clients ses)"
  by (drule tcp_okD(1)) (auto simp: announce_check_eq pending_of_def)

lemma message_addr:
  assumes ok: "tcp_ok (ts_clients s)" and "hm_get (ts_clients (handle_msg now now' ok\<^sub>1 ok\<^sub>2 msg c tk s)) ses = Some cl"
  shows "(\<exists>cl\<^sub>0. hm_get (ts_clients s) ses = Some cl\<^sub>0 \<and> kc_addr cl = kc_addr cl\<^sub>0)
    \<or> (\<exists>a. msg = AnnounceAndCheck a \<and> ad_session a = ses \<and> kc_addr cl = tk_addr tk)"
proof (cases msg)
  case (GetClients app)
  with assms(2) show ?thesis by (simp add: handle_msg_def)
next
  case (TcpConnectionRequest ses')
  obtain r clients where req: "insert_connection_request now (ts_next s) ses' (tk_addr tk) (ts_clients s) = (r, clients)"
    by fastforce
  with assms(2) TcpConnectionRequest have "hm_get clients ses = Some cl"
    by (cases r) (auto simp: handle_msg_def Let_def split: if_splits)
  with keeps_addr_request [OF ok req] show ?thesis unfolding keeps_addr_def by blast
next
  case (AnnounceAndCheck a)
  obtain r clients where ann: "announce_check now now' a (tk_addr tk) (ts_clients s) = (r, clients)" by fastforce
  with assms(2) AnnounceAndCheck have "hm_get clients ses = Some cl"
    by (cases r) (auto simp: handle_msg_def split: if_splits)
  with announce_addr [OF ok ann, of ses]
  have "if ses = ad_session a then kc_addr cl = tk_addr tk else hm_get (ts_clients s) ses = Some cl" by (auto split: if_splits)
  with AnnounceAndCheck show ?thesis by (auto split: if_splits)
qed

lemma clients_announced:
  assumes "tcp_reachable s" and "hm_get (ts_clients s) ses = Some cl"
  shows "announced_in s ses (kc_addr cl)"
  using assms
proof (induction arbitrary: cl rule: tcp_reachable.induct)
  case start
  then show ?case by (simp add: tcp_server_new_def tcp_state_new_def)
next
  case (step s s')
  note ok = tcp_inv_clients [OF tcp_inv_reachable [OF step.hyps(1)]]
  have old: ?case if "hm_get (ts_clients s) ses = Some cl\<^sub>0" "kc_addr cl = kc_addr cl\<^sub>0" for cl\<^sub>0
    using announced_in_step [OF step.IH [OF that(1)] step.hyps(2)] that(2) by simp
  have kept: ?case if "keeps_addr (ts_clients s) (ts_clients s')"
    using that step.prems old unfolding keeps_addr_def by blast
  from step.hyps(2) show ?case
  proof cases
    case (message c tk now now' ok\<^sub>1 ok\<^sub>2 msg)
    with message_addr [OF ok] step.prems consider
      cl\<^sub>0 where "hm_get (ts_clients s) ses = Some cl\<^sub>0" "kc_addr cl = kc_addr cl\<^sub>0"
      | a where "msg = AnnounceAndCheck a" "ad_session a = ses" "kc_addr cl = tk_addr tk" by blast
    then show ?thesis
      using announced_now [OF step.hyps(1) message(2-4)] message(1) old by cases auto
  qed (use kept keeps_addr_refl keeps_addr_cleanup [OF ok] keeps_addr_remove [OF ok] in simp_all)
qed

text \<open>A waiting task was last told an address from which its session was announced.\<close>

lemma waiter_told:
  assumes "tcp_reachable s" and "ts_tasks s r = Some tkr" and "tk_status tkr = Awaiting i ses dl"
  shows "\<exists>u a. tk_sent tkr = u @ [RemoteAddr a] \<and> announced_in s ses a"
  using assms
proof (induction arbitrary: tkr rule: tcp_reachable.induct)
  case start
  then show ?case by (simp add: tcp_server_new_def)
next
  case (step s s')
  show ?case
  proof (cases "ts_tasks s r = Some tkr")
    case True
    with step.IH step.prems(2) announced_in_step [OF _ step.hyps(2)] show ?thesis by blast
  next
    case False
    have "\<exists>u cl. tk_sent tkr = u @ [RemoteAddr (kc_addr cl)] \<and> hm_get (ts_clients s) ses = Some cl"
      using step.hyps(2)
    proof cases
      case (message c tk now now' ok\<^sub>1 ok\<^sub>2 msg)
      with False step.prems(1) have "c = r" by (metis handle_msg_other)
      with message False step.prems show ?thesis
        by (cases msg)
          (auto simp: handle_msg_def Let_def insert_connection_request_def send_msg_sent split: prod.splits option.splits if_splits)
    qed (use False step.prems in \<open>auto simp: new_task_def split: if_splits\<close>)
    with announced_in_step [OF clients_announced [OF step.hyps(1)] step.hyps(2)] show ?thesis by blast
  qed
qed

subsection \<open>Properties\<close>

text \<open>What both ends have in common once they hold a connection.\<close>

lemma end_connects:
  assumes "connect_client windows ex port cn = Some (Ok (sock, a), cn') \<and> parent = cn_parent cn
    \<or> service_poll_accept windows ex sv = Some (Ok (sock, a), sv') \<and> parent = sv_parent sv"
  shows "ex_remote ex = Received a \<and> ts_port sock = rs_port parent
    \<and> (\<exists>dur now env. ex_countdown ex = Received dur \<and> (now, env, Connected) \<in> set (ex_attempts ex)
        \<and> now < ex_countdown_at ex + min dur (from_secs 2) + ex_delay ex + from_millis 500)"
  using assms
proof (elim disjE conjE)
  assume "connect_client windows ex port cn = Some (Ok (sock, a), cn')" "parent = cn_parent cn"
  then show ?thesis using connector_connects by metis
next
  assume "service_poll_accept windows ex sv = Some (Ok (sock, a), sv')" "parent = sv_parent sv"
  then show ?thesis using service_accepts by metis
qed

text \<open>C23: Nobody connects alone. Take any reachable state of the TCP server and an end of one of its
  connections, a connector or a service, that received what the connection's task sent and holds
  a connection to the address \<open>a\<close>. It connects
  from the port it used towards the server, with an attempt begun within one second of the
  countdown (and its delay). And it has a counterpart: at some earlier step an announcement on a
  connection \<open>d\<close> took the request with which another connection \<open>r\<close> was waiting for the announced
  session; this end is the one of the two, and by now both were told to start, unless a
  connection broke (\<open>both_told\<close>). If it is \<open>d\<close>'s, it connects to the address of \<open>r\<close>; if it is
  \<open>r\<close>'s, to one from which the session that it asked for had been announced.\<close>

theorem tcp_ends_meet:
  assumes "tcp_reachable s" and "ts_tasks s c = Some tk" and "heard tk ex"
    and "connect_client windows ex port cn = Some (Ok (sock, a), cn') \<and> parent = cn_parent cn
      \<or> service_poll_accept windows ex sv = Some (Ok (sock, a), sv') \<and> parent = sv_parent sv"
  shows "ts_port sock = rs_port parent
    \<and> (\<exists>now env. (now, env, Connected) \<in> set (ex_attempts ex)
        \<and> now < ex_countdown_at ex + from_millis 1000 + ex_delay ex)
    \<and> (\<exists>s\<^sub>0 s\<^sub>1 d tkd r tkr. tcp_reachable s\<^sub>0 \<and> takes s\<^sub>0 d tkd r tkr s\<^sub>1 \<and> tcp_step\<^sup>*\<^sup>* s\<^sub>1 s
        \<and> d \<noteq> r \<and> both_told s d tkd r tkr
        \<and> (c = d \<and> a = tk_addr tkr
          \<or> c = r \<and> (\<exists>i ses dl. tk_status tkr = Awaiting i ses dl \<and> announced_in s\<^sub>0 ses a)))"
proof -
  from end_connects [OF assms(4)] obtain dur now env where e: "ex_remote ex = Received a" "ts_port sock = rs_port parent"
    "ex_countdown ex = Received dur" "(now, env, Connected) \<in> set (ex_attempts ex)"
    "now < ex_countdown_at ex + min dur (from_secs 2) + ex_delay ex + from_millis 500" by blast
  with assms(3) have "prefix ([RemoteAddr a] @ [StartCountdown dur]) (tk_sent tk)"
    using take_is_prefix [of 2 "tk_sent tk"] by (simp add: heard_def)
  from countdown_taken [OF assms(1,2) this] obtain d tkd r tkr where dur: "dur = from_millis 500"
    and t: "taken_in s d tkd r tkr"
    and u: "c = d \<and> [RemoteAddr a] = tk_sent tkd @ [RemoteAddr (tk_addr tkr)] \<or> c = r \<and> [RemoteAddr a] = tk_sent tkr"
    by blast
  from t obtain s\<^sub>0 s\<^sub>1 where s: "tcp_reachable s\<^sub>0" "takes s\<^sub>0 d tkd r tkr s\<^sub>1" "tcp_step\<^sup>*\<^sup>* s\<^sub>1 s"
    unfolding taken_in_def by blast
  from s(2) obtain i ses dl where w: "ts_tasks s\<^sub>0 r = Some tkr" "tk_status tkr = Awaiting i ses dl"
    unfolding takes_def by blast
  from waiter_told [OF s(1) w] obtain v b where b: "tk_sent tkr = v @ [RemoteAddr b]" "announced_in s\<^sub>0 ses b" by blast
  from u b w(2) have "c = d \<and> a = tk_addr tkr
      \<or> c = r \<and> (\<exists>i ses dl. tk_status tkr = Awaiting i ses dl \<and> announced_in s\<^sub>0 ses a)" by auto
  moreover have "now < ex_countdown_at ex + from_millis 1000 + ex_delay ex" using e(5) dur by (simp add: time_simps)
  ultimately show ?thesis using e(2,4) s both_told_later [OF s] takes_distinct [OF s(2)] by blast
qed

text \<open>The service of the server's example takes the request and connects to the requester.\<close>

definition ex_service_exchange :: exchange where
  "ex_service_exchange = ex_exchange\<lparr>ex_remote := Received (ex_at 2), ex_attempts := [(from_millis 700, ex_clone_env, Connected)]\<rparr>"

lemma ex_service_connects:
  "service_poll_accept False ex_service_exchange \<lparr>sv_nat_server = ex_at 9, sv_parent = ex_socket, sv_adv_data = ex_service\<rparr> =
    Some (Ok (\<lparr>ts_ip = Ipv4 0 0 0 0, ts_port = 5000, ts_device = None\<rparr>, ex_at 2),
      \<lparr>sv_nat_server = ex_at 9, sv_parent = ex_socket, sv_adv_data = ex_service\<rparr>)"
proof -
  have "connect_and_send False ex_service_exchange ex_socket = (Ok (), ex_socket)"
    using ex_clone by (simp add: connect_and_send_def ex_service_exchange_def ex_exchange_def)
  moreover have "from_millis 700 < attempts_deadline ex_service_exchange (from_millis 500)"
    by (simp add: attempts_deadline_def ex_service_exchange_def ex_exchange_def time_simps)
  moreover have "ex_remote ex_service_exchange = Received (ex_at 2)" "ex_countdown ex_service_exchange = Received (from_millis 500)"
    "ex_attempts ex_service_exchange = [(from_millis 700, ex_clone_env, Connected)]"
    by (simp_all add: ex_service_exchange_def ex_exchange_def)
  ultimately show ?thesis by (simp add: service_poll_accept_def ex_clone)
qed

theorem tcp_ends_meet_witness:
  "(\<exists>now env. (now, env, Connected) \<in> set (ex_attempts ex_service_exchange)
      \<and> now < ex_countdown_at ex_service_exchange + from_millis 1000 + ex_delay ex_service_exchange)
    \<and> (\<exists>s\<^sub>0 s\<^sub>1 d tkd r tkr. tcp_reachable s\<^sub>0 \<and> takes s\<^sub>0 d tkd r tkr s\<^sub>1 \<and> tcp_step\<^sup>*\<^sup>* s\<^sub>1 ex_run\<^sub>3
        \<and> d \<noteq> r \<and> both_told ex_run\<^sub>3 d tkd r tkr
        \<and> (2 = d \<and> ex_at 2 = tk_addr tkr
          \<or> 2 = r \<and> (\<exists>i ses dl. tk_status tkr = Awaiting i ses dl \<and> announced_in s\<^sub>0 ses (ex_at 2))))"
proof -
  let ?tk = "\<lparr>tk_addr = ex_at 1, tk_status = Looping, tk_sent = [RemoteAddr (ex_at 2), StartCountdown (from_millis SCHEDULE_CON_MS)]\<rparr>"
  have "heard ?tk ex_service_exchange"
    by (simp add: heard_def ex_service_exchange_def ex_exchange_def SCHEDULE_CON_MS_def)
  note meet = tcp_ends_meet [OF ex_reachable(3) ex_run\<^sub>3_task this, OF disjI2 [OF conjI [OF ex_service_connects refl]]]
  from meet [THEN conjunct2] show ?thesis .
qed

end
