(* ===== verification/Server_Setup.thy ===== *)
theory Server_Setup
  imports Prelude
begin

text \<open>
  What starts and stops the servers: the configuration (\<open>src/config.rs\<close>), the tasks
  \<open>run_server\<close> spawns (\<open>src/server.rs\<close>), and the shutdown signal (\<open>ctrlc_reg\<close>,
  \<open>src/lib.rs\<close>), an atomic flag next to a \<open>watch\<close> channel.
\<close>

subsection \<open>Configuration\<close>

record server_config =
  tcp_handler_port :: "u16 option"
  udp_handler_port :: "u16 option"

definition udp_only :: server_config where
  "udp_only = \<lparr>tcp_handler_port = None, udp_handler_port = Some 47002\<rparr>"

definition tcp_only :: server_config where
  "tcp_only = \<lparr>tcp_handler_port = Some 47002, udp_handler_port = None\<rparr>"

definition config_default :: server_config where
  "config_default = \<lparr>tcp_handler_port = Some 47002, udp_handler_port = Some 47002\<rparr>"

datatype server_task = RunTcpServer u16 | RunUdpServer u16

definition run_server_tasks :: "server_config \<Rightarrow> server_task list" where
  "run_server_tasks cfg =
    (case tcp_handler_port cfg of Some p \<Rightarrow> [RunTcpServer p] | None \<Rightarrow> [])
    @ (case udp_handler_port cfg of Some p \<Rightarrow> [RunUdpServer p] | None \<Rightarrow> [])"

subsection \<open>The shutdown signal\<close>

text \<open>The flag, the value of the channel, and how many signals and listeners share them.\<close>

record shutdown =
  sd_flag :: bool
  sd_watch :: bool
  sd_signals :: nat
  sd_listeners :: nat

definition register_manual :: shutdown where
  "register_manual = \<lparr>sd_flag = False, sd_watch = False, sd_signals = 1, sd_listeners = 1\<rparr>"

text \<open>Sending on the channel fails, and leaves it unchanged, when nobody listens: the unwrap panics.\<close>

definition trigger :: "shutdown \<Rightarrow> (unit, unit) res \<times> shutdown" where
  "trigger sd =
    (let sd = sd\<lparr>sd_flag := True\<rparr> in
     if sd_listeners sd = 0 then (Panic, sd) else (Ok (), sd\<lparr>sd_watch := True\<rparr>))"

text \<open>\<open>register_ctrl_c\<close>: the signal goes to the operating system's handler, which triggers it;
  \<open>handler_ok\<close> is whether the handler could be installed.\<close>

definition register_ctrl_c :: "bool \<Rightarrow> (shutdown, unit) res" where
  "register_ctrl_c handler_ok = (let shutdown_req = register_manual in if handler_ok then Ok shutdown_req else Panic)"

definition is_shutdown :: "shutdown \<Rightarrow> bool" where
  "is_shutdown sd = sd_flag sd"

text \<open>Whether \<open>wait\<close> completes: \<open>wait_for\<close> returns on the value, or with an error that is ignored
  when every sender is gone.\<close>

definition wait_completes :: "shutdown \<Rightarrow> bool" where
  "wait_completes sd \<longleftrightarrow> sd_watch sd \<or> sd_signals sd = 0"

text \<open>What holders of a signal or a listener can do; a panic in \<open>trigger\<close> ends the run.\<close>

datatype shutdown_op = Trigger | CloneSignal | DropSignal | CloneListener | DropListener

fun shutdown_step :: "shutdown_op \<Rightarrow> shutdown \<Rightarrow> shutdown option" where
  "shutdown_step Trigger sd =
     (if sd_signals sd = 0 then None else case trigger sd of (Ok _, sd') \<Rightarrow> Some sd' | _ \<Rightarrow> None)"
| "shutdown_step CloneSignal sd = (if sd_signals sd = 0 then None else Some (sd\<lparr>sd_signals := sd_signals sd + 1\<rparr>))"
| "shutdown_step DropSignal sd = (if sd_signals sd = 0 then None else Some (sd\<lparr>sd_signals := sd_signals sd - 1\<rparr>))"
| "shutdown_step CloneListener sd =
     (if sd_listeners sd = 0 then None else Some (sd\<lparr>sd_listeners := sd_listeners sd + 1\<rparr>))"
| "shutdown_step DropListener sd =
     (if sd_listeners sd = 0 then None else Some (sd\<lparr>sd_listeners := sd_listeners sd - 1\<rparr>))"

fun shutdown_run :: "shutdown_op list \<Rightarrow> shutdown \<Rightarrow> shutdown option" where
  "shutdown_run [] sd = Some sd"
| "shutdown_run (op # ops) sd = (case shutdown_step op sd of None \<Rightarrow> None | Some sd' \<Rightarrow> shutdown_run ops sd')"

lemma shutdown_step_flag:
  "shutdown_step op sd = Some sd' \<Longrightarrow> sd_flag sd = sd_watch sd \<Longrightarrow>
     sd_flag sd' = sd_watch sd' \<and> (sd_flag sd' \<longleftrightarrow> sd_flag sd \<or> op = Trigger)"
  by (cases op) (auto simp: trigger_def Let_def split: if_splits)

lemma shutdown_run_flag:
  "shutdown_run ops sd = Some sd' \<Longrightarrow> sd_flag sd = sd_watch sd \<Longrightarrow>
     sd_flag sd' = sd_watch sd' \<and> (sd_flag sd' \<longleftrightarrow> sd_flag sd \<or> Trigger \<in> set ops)"
proof (induction ops arbitrary: sd)
  case (Cons op ops)
  then show ?case by (auto split: option.splits dest!: shutdown_step_flag)
qed simp

text \<open>Listeners learn of a shutdown exactly when it was triggered: the flag is set and every wait
  completes once a signal was triggered, and stays so; before that a wait completes only if every
  signal was dropped, and then the flag is not set.\<close>

lemma shutdown_reaches_listeners:
  assumes "shutdown_run ops register_manual = Some sd"
  shows "(is_shutdown sd \<longleftrightarrow> Trigger \<in> set ops)
    \<and> (wait_completes sd \<longleftrightarrow> Trigger \<in> set ops \<or> sd_signals sd = 0)"
  using shutdown_run_flag [OF assms] by (auto simp: register_manual_def is_shutdown_def wait_completes_def)

lemma shutdown_reaches_listeners_witness:
  "\<exists>sd. shutdown_run [CloneListener, Trigger, DropListener] register_manual = Some sd \<and> is_shutdown sd \<and> wait_completes sd"
proof -
  obtain sd where r: "shutdown_run [CloneListener, Trigger, DropListener] register_manual = Some sd"
    by (simp add: register_manual_def trigger_def)
  from shutdown_reaches_listeners [OF r] r show ?thesis by simp
qed

end
