(* ===== verification/Tcp_Programs.thy ===== *)
theory Tcp_Programs
  imports Tcp_Client Tcp_Server Rust_Strings Server_Setup "HOL-Library.Multiset"
begin

text \<open>
  The example programs around the TCP library. \<open>examples/connector.rs\<close> scans for services, lets the
  user choose one that it holds no connection to, connects to it and drops the connection some
  time later, in a task of its own. \<open>examples/service.rs\<close> polls for connectors.
  \<open>examples/server.rs\<close> runs both servers until Ctrl-C.
\<close>

subsection \<open>The connector\<close>

text \<open>\<open>Vec::swap_remove\<close>, for an index in range.\<close>

definition swap_remove :: "nat \<Rightarrow> 'a list \<Rightarrow> 'a list" where
  "swap_remove i xs = (if i = length xs - 1 then butlast xs else (butlast xs)[i := last xs])"

text \<open>\<open>Iterator::position\<close>.\<close>

fun position :: "('a \<Rightarrow> bool) \<Rightarrow> 'a list \<Rightarrow> nat option" where
  "position p [] = None"
| "position p (x # xs) = (if p x then Some 0 else map_option Suc (position p xs))"

definition ca_session :: "client_announcement \<Rightarrow> u64" where
  "ca_session c = ad_session (ca_data c)"

fun ignore_established :: "(socket_addr \<times> u64) list \<Rightarrow> client_announcement list \<Rightarrow> client_announcement list" where
  "ignore_established [] clients = clients"
| "ignore_established ((_, session_id) # es) clients =
     ignore_established es
       (case position (\<lambda>c. ca_session c = session_id) clients of
          Some idx \<Rightarrow> swap_remove idx clients
        | None \<Rightarrow> clients)"

text \<open>The program waits for a scan, or for \<open>connect_client\<close> on the chosen session.\<close>

record connector_program =
  established_connections :: "(socket_addr \<times> u64) list"
  chosen :: "u64 option"

text \<open>
  One pass of the loop up to the choice, given what the scan returned, the connections held when
  it did, and the line typed (\<open>None\<close> if reading it failed): the session to connect to, if any.
\<close>

definition choose_session ::
  "(client_announcement list, request_error) res \<Rightarrow> (socket_addr \<times> u64) list \<Rightarrow> string option \<Rightarrow> (u64 option, unit) res" where
  "choose_session res established line =
    (case res of
       Panic \<Rightarrow> Panic
     | Err e \<Rightarrow> Ok None
     | Ok clients \<Rightarrow>
         (let clients = ignore_established established clients in
          if clients = [] then Ok None
          else (case line of
                  None \<Rightarrow> Panic
                | Some buf \<Rightarrow>
                    (let choice = (case parse_usize (trim buf) of Some n \<Rightarrow> n | None \<Rightarrow> 0) in
                     if choice = 0 then Ok None
                     else if choice > length clients then Ok None
                     else bind_res (index_at clients (choice - 1)) (\<lambda>client. Ok (Some (ca_session client)))))))"

text \<open>
  What happens to the program: a scan with a choice, the end of the attempt to connect, or the
  end of a task that held a connection.
\<close>

datatype connector_event =
    Scanned "(client_announcement list, request_error) res" "string option"
  | Attempted "(socket_addr, request_error) res"
  | Dropped u64

definition connector_step :: "connector_event \<Rightarrow> connector_program \<Rightarrow> (connector_program, unit) res" where
  "connector_step e p = (case e of
      Scanned res line \<Rightarrow>
        (case chosen p of
           Some _ \<Rightarrow> Ok p
         | None \<Rightarrow> bind_res (choose_session res (established_connections p) line) (\<lambda>session. Ok (p\<lparr>chosen := session\<rparr>)))
    | Attempted res \<Rightarrow>
        (case chosen p of
           None \<Rightarrow> Ok p
         | Some session_id \<Rightarrow>
             (case res of
                Ok remote_addr \<Rightarrow>
                  Ok (p\<lparr>established_connections := established_connections p @ [(remote_addr, session_id)], chosen := None\<rparr>)
              | Err e \<Rightarrow> Ok (p\<lparr>chosen := None\<rparr>)
              | Panic \<Rightarrow> Panic))
    | Dropped session_id \<Rightarrow>
        Ok (p\<lparr>established_connections := filter (\<lambda>(_, s). s \<noteq> session_id) (established_connections p)\<rparr>))"

fun run_connector :: "connector_event list \<Rightarrow> connector_program \<Rightarrow> (connector_program, unit) res" where
  "run_connector [] p = Ok p"
| "run_connector (e # es) p = bind_res (connector_step e p) (run_connector es)"

definition connector_start :: connector_program where
  "connector_start = \<lparr>established_connections = [], chosen = None\<rparr>"

subsection \<open>The service\<close>

text \<open>
  One pass of the loop: what the task spawned for a connection reads from its peer's first bytes
  (five, or nothing if they do not come), or whether an error is reported.
\<close>

datatype service_action = ReadMessage "bytes option" | NothingPending | ReportError request_error

definition read_exact :: "nat \<Rightarrow> bytes \<Rightarrow> bytes option" where
  "read_exact n stream = (if n \<le> length stream then Some (take n stream) else None)"

definition service_round :: "(tcp_socket \<times> socket_addr, request_error) res \<Rightarrow> bytes \<Rightarrow> (service_action, unit) res" where
  "service_round res stream = (case res of
      Ok _ \<Rightarrow> Ok (ReadMessage (read_exact 5 stream))
    | Err NoPendingConnections \<Rightarrow> Ok NothingPending
    | Err e \<Rightarrow> Ok (ReportError e)
    | Panic \<Rightarrow> Panic)"

subsection \<open>The server\<close>

definition server_main :: "bool \<Rightarrow> (server_task list \<times> shutdown, unit) res" where
  "server_main handler_ok = bind_res (register_ctrl_c handler_ok) (\<lambda>sd. Ok (run_server_tasks config_default, sd))"

subsection \<open>Removing by position\<close>

lemma position_None: "position p xs = None \<longleftrightarrow> (\<forall>x \<in> set xs. \<not> p x)"
  by (induction xs) auto

lemma position_Some: "position p xs = Some i \<Longrightarrow> i < length xs \<and> p (xs ! i)"
  by (induction xs arbitrary: i) (auto split: if_splits)

lemma mset_swap_remove:
  assumes "i < length xs"
  shows "mset (swap_remove i xs) = mset xs - {#xs ! i#}"
proof -
  obtain ys y where xs: "xs = ys @ [y]" using assms by (cases xs rule: rev_cases) auto
  show ?thesis
  proof (cases "i = length ys")
    case False
    with assms xs have "i < length ys" by simp
    then show ?thesis by (simp add: xs swap_remove_def mset_update nth_append)
  qed (simp add: xs swap_remove_def)
qed

lemma swap_remove_distinct:
  assumes "distinct (map f xs)" and "i < length xs"
  shows "distinct (map f (swap_remove i xs)) \<and> set (swap_remove i xs) = {x \<in> set xs. f x \<noteq> f (xs ! i)}"
proof -
  have "mset xs = mset (xs ! i # swap_remove i xs)" using mset_swap_remove [OF assms(2)] assms(2) by simp
  then have "mset (map f xs) = mset (map f (xs ! i # swap_remove i xs))" and s: "set xs = insert (xs ! i) (set (swap_remove i xs))"
    by (simp_all only: mset_map) (metis list.simps(15) set_mset_mset)
  then have "distinct (map f (xs ! i # swap_remove i xs))" using assms(1) by (metis mset_eq_imp_distinct_iff)
  then show ?thesis unfolding s by (auto simp: rev_image_eqI)
qed

lemma ignore_established_distinct:
  assumes "distinct (map ca_session clients)"
  shows "distinct (map ca_session (ignore_established es clients))
    \<and> set (ignore_established es clients) = {c \<in> set clients. ca_session c \<notin> snd ` set es}"
  using assms
proof (induction es arbitrary: clients)
  case (Cons e es)
  obtain a s where e: "e = (a, s)" by (cases e)
  show ?case
  proof (cases "position (\<lambda>c. ca_session c = s) clients")
    case None
    with Cons position_None [of "\<lambda>c. ca_session c = s" clients] show ?thesis by (auto simp: e)
  next
    case (Some i)
    with position_Some have i: "i < length clients" "ca_session (clients ! i) = s" by fastforce+
    note d = swap_remove_distinct [OF Cons.prems i(1), unfolded i(2)]
    with Cons.IH [of "swap_remove i clients"] Some show ?thesis by (auto simp: e)
  qed
qed simp

subsection \<open>Properties\<close>

text \<open>The server lists each session once.\<close>

lemma get_clients_distinct:
  assumes "tcp_ok clients"
  shows "distinct (map ca_session (get_clients now app clients))"
proof -
  have "map ca_session (get_clients now app clients) = map fst clients"
    using assms by (auto simp: get_clients_def ca_session_def hm_values_def tcp_ok_def hm_ok_def hm_get_def)
  with tcp_okD(1) [OF assms] show ?thesis by (simp add: hm_ok_def)
qed

lemma choose_session_result:
  assumes "distinct (map ca_session clients)" and "choose_session (Ok clients) established line = r" and "line \<noteq> None"
  shows "r \<noteq> Panic" "r = Ok (Some s) \<Longrightarrow> s \<in> ca_session ` set clients \<and> s \<notin> snd ` set established"
proof -
  let ?cs = "ignore_established established clients"
  obtain buf where line: "line = Some buf" using assms(3) by auto
  have "\<forall>c \<in> set ?cs. c \<in> set clients \<and> ca_session c \<notin> snd ` set established"
    using ignore_established_distinct [OF assms(1), of established] by blast
  then have c: "?cs ! (n - Suc 0) \<in> set clients" "(a, ca_session (?cs ! (n - Suc 0))) \<notin> set established"
    if "0 < n" "\<not> length ?cs < n" for n a
    using that by (force simp: image_iff)+
  show "r \<noteq> Panic" "r = Ok (Some s) \<Longrightarrow> s \<in> ca_session ` set clients \<and> s \<notin> snd ` set established"
    using assms(2) c
    by (auto simp: choose_session_def line Let_def index_at_def split: if_splits option.splits)
qed

text \<open>A scan returns the list of some state of the server, if it returns one.\<close>

definition scan_ok :: "connector_event \<Rightarrow> bool" where
  "scan_ok e \<longleftrightarrow> (\<forall>clients line. e = Scanned (Ok clients) line \<longrightarrow>
     (\<exists>now app st. tcp_ok st \<and> clients = get_clients now app st))"

text \<open>The calls that panic: one of the library's, or \<open>read_line\<close> is unwrapped on input that is not UTF-8.\<close>

fun unwraps :: "connector_event \<Rightarrow> bool" where
  "unwraps (Scanned res line) = (res = Panic \<or> line = None)"
| "unwraps (Attempted res) = (res = Panic)"
| "unwraps (Dropped _) = False"

definition connector_ok :: "connector_program \<Rightarrow> bool" where
  "connector_ok p \<longleftrightarrow> distinct (map snd (established_connections p))
     \<and> (\<forall>s. chosen p = Some s \<longrightarrow> s \<notin> snd ` set (established_connections p))"

lemma distinct_filter_snd: "distinct (map snd xs) \<Longrightarrow> distinct (map snd (filter P xs))"
  by (rule distinct_map_filter)

lemma choose_session_outcome:
  assumes "scan_ok (Scanned res line)" and "\<not> unwraps (Scanned res line)"
  shows "\<exists>s. choose_session res established line = Ok s \<and> (\<forall>ses. s = Some ses \<longrightarrow> ses \<notin> snd ` set established)"
proof (cases res)
  case (Ok clients)
  with assms get_clients_distinct have d: "distinct (map ca_session clients)" "line \<noteq> None"
    by (auto simp: scan_ok_def)
  note c = choose_session_result [OF d(1) refl d(2), of established]
  then show ?thesis
    by (cases "choose_session (Ok clients) established line")
      (auto simp: Ok choose_session_def Let_def bind_res_eq_Err index_at_def split: option.splits if_splits)
qed (use assms(2) in \<open>auto simp: choose_session_def\<close>)

lemma choose_session_not_Err: "choose_session res established line \<noteq> Err e"
  by (auto simp: choose_session_def Let_def bind_res_eq_Err index_at_def split: res.splits option.splits if_splits)

lemma choose_session_fresh:
  assumes "scan_ok (Scanned res line)" and "choose_session res established line = Ok (Some s)"
  shows "s \<notin> snd ` set established"
proof (cases "unwraps (Scanned res line)")
  case False
  from choose_session_outcome [OF assms(1) this, of established] assms(2) show ?thesis by auto
next
  case True
  with assms(2) show ?thesis by (auto simp: choose_session_def Let_def split: res.splits if_splits)
qed

lemma connector_step_outcome:
  assumes "connector_ok p" and "scan_ok e"
  shows "case connector_step e p of Ok p' \<Rightarrow> connector_ok p' | Err _ \<Rightarrow> False | Panic \<Rightarrow> unwraps e"
proof (cases e)
  case (Scanned res line)
  show ?thesis
  proof (cases "chosen p")
    case None
    show ?thesis
    proof (cases "choose_session res (established_connections p) line")
      case (Ok s)
      with choose_session_fresh [of res line "established_connections p"] assms None show ?thesis
        by (cases s) (simp_all add: Scanned connector_step_def connector_ok_def)
    next
      case (Err e')
      then show ?thesis by (simp add: choose_session_not_Err)
    next
      case Panic
      with choose_session_outcome [of res line "established_connections p"] assms(2) None show ?thesis
        by (auto simp: Scanned connector_step_def)
    qed
  qed (use Scanned assms(1) in \<open>auto simp: connector_step_def\<close>)
next
  case (Attempted res)
  with assms show ?thesis
    by (cases res; cases "chosen p") (auto simp: connector_step_def connector_ok_def)
next
  case (Dropped s)
  with assms(1) show ?thesis
    by (auto simp: connector_step_def connector_ok_def distinct_filter_snd)
qed

lemma run_connector_outcome:
  assumes "connector_ok p" and "\<forall>e \<in> set es. scan_ok e"
  shows "case run_connector es p of Ok p' \<Rightarrow> connector_ok p' | Err _ \<Rightarrow> False | Panic \<Rightarrow> \<exists>e \<in> set es. unwraps e"
  using assms
proof (induction es arbitrary: p)
  case (Cons e es)
  have step: "case connector_step e p of Ok p' \<Rightarrow> connector_ok p' | Err _ \<Rightarrow> False | Panic \<Rightarrow> unwraps e"
    using Cons.prems by (intro connector_step_outcome) simp_all
  show ?case
  proof (cases "connector_step e p")
    case (Ok p')
    with step Cons.IH [of p'] Cons.prems(2) show ?thesis by (auto split: res.splits)
  qed (use step in simp_all)
qed simp

text \<open>C36: The connector program holds at most one connection to a service. The scans return what the
  server lists in some state; whatever is typed, whatever the attempts to connect come to and
  whenever connections are dropped, the sessions that the program holds connections to are
  distinct, and it never tries to connect to one of them. No choice typed makes it panic: it
  panics only if a call of the library does, or if the line typed cannot be read.\<close>

theorem connector_sessions_distinct:
  assumes "\<forall>e \<in> set es. scan_ok e"
  shows "case run_connector es connector_start of
      Ok p \<Rightarrow> distinct (map snd (established_connections p))
        \<and> (\<forall>s. chosen p = Some s \<longrightarrow> s \<notin> snd ` set (established_connections p))
    | Err _ \<Rightarrow> False
    | Panic \<Rightarrow> (\<exists>e \<in> set es. unwraps e)"
  using run_connector_outcome [OF _ assms, of connector_start]
  by (simp add: connector_ok_def connector_start_def split: res.splits)

text \<open>The service of \<open>ex_clients\<close> is chosen and connected to; the next scan offers nothing.\<close>

definition ex_events :: "connector_event list" where
  "ex_events = [Scanned (Ok (get_clients 5 ''test_app'' ex_clients)) (Some '' 1 ''), Attempted (Ok (ex_at 1)),
     Scanned (Ok (get_clients 6 ''test_app'' ex_clients)) (Some ''1'')]"

theorem connector_sessions_distinct_witness:
  "run_connector ex_events connector_start = Ok \<lparr>established_connections = [(ex_at 1, 42)], chosen = None\<rparr>
    \<and> distinct (map snd [(ex_at 1, 42 :: u64)])"
proof -
  have "\<exists>now app st. tcp_ok st \<and> get_clients n a ex_clients = get_clients now app st" for n a
    using ex_clients_ok by (intro exI conjI) (assumption, rule refl)
  then have ok: "\<forall>e \<in> set ex_events. scan_ok e" by (simp add: ex_events_def scan_ok_def)
  have "run_connector ex_events connector_start = Ok \<lparr>established_connections = [(ex_at 1, 42)], chosen = None\<rparr>"
    by (simp add: ex_events_def connector_start_def connector_step_def choose_session_def get_clients_def
        ex_clients_eq hm_values_def ca_session_def ex_service_def Let_def index_at_def trim_def is_whitespace_def
        parse_usize_def digit_of_def swap_remove_def)
  with connector_sessions_distinct [OF ok] show ?thesis by simp
qed

text \<open>The handler of Ctrl-C owns the signal for as long as the program runs: no signal is dropped.\<close>

lemma shutdown_run_signals:
  "shutdown_run ops sd = Some sd' \<Longrightarrow> DropSignal \<notin> set ops \<Longrightarrow> sd_signals sd \<le> sd_signals sd'"
proof (induction ops arbitrary: sd)
  case (Cons op ops)
  from Cons.prems obtain sd1 where s: "shutdown_step op sd = Some sd1" "shutdown_run ops sd1 = Some sd'"
    by (auto split: option.splits)
  moreover have "sd_signals sd \<le> sd_signals sd1"
    using s(1) Cons.prems(2) by (cases op) (auto simp: trigger_def Let_def split: if_splits)
  ultimately show ?case using Cons.IH [OF s(2)] Cons.prems(2) by simp
qed simp

text \<open>C37: The server program runs both servers on port 47002 and stops them on Ctrl-C only: as long as the
  handler keeps its signal, whatever the tasks do with their listeners, a task's wait for the
  shutdown completes, and its flag is set, exactly if Ctrl-C was pressed.\<close>

theorem server_main_stops:
  assumes "server_main handler_ok = Ok (tasks, sd)"
    and "shutdown_run ops sd = Some sd'" and "DropSignal \<notin> set ops"
  shows "tasks = [RunTcpServer 47002, RunUdpServer 47002]
    \<and> (wait_completes sd' \<longleftrightarrow> Trigger \<in> set ops) \<and> (is_shutdown sd' \<longleftrightarrow> Trigger \<in> set ops)"
proof -
  have new: "tasks = run_server_tasks config_default" "sd = register_manual"
    using assms(1) by (auto simp: server_main_def register_ctrl_c_def Let_def bind_res_eq_Ok split: if_splits)
  have "sd_signals sd' \<noteq> 0"
    using shutdown_run_signals [OF assms(2,3)] by (simp add: new register_manual_def)
  with shutdown_reaches_listeners [OF assms(2) [unfolded new]] show ?thesis
    by (simp add: new run_server_tasks_def config_default_def)
qed

theorem server_main_stops_witness:
  "\<exists>sd'. shutdown_run [CloneListener, Trigger, DropListener] register_manual = Some sd' \<and> wait_completes sd' \<and> is_shutdown sd'"
proof -
  have m: "server_main True = Ok (run_server_tasks config_default, register_manual)"
    by (simp add: server_main_def register_ctrl_c_def)
  obtain sd' where r: "shutdown_run [CloneListener, Trigger, DropListener] register_manual = Some sd'"
    by (simp add: register_manual_def trigger_def)
  from server_main_stops [OF m r] r show ?thesis by simp
qed

end
