(* ===== verification/Spec2Isabelle.thy ===== *)
theory Spec2Isabelle
  imports Udp_System Udp_Chat Tcp_System Tcp_Programs
begin

text \<open>
  A model of the crate \<open>reprise-p2p\<close>: two programs behind NAT find each other through a rendezvous
  server and then talk directly.

  The program. There are two independent protocols.

  \<^item> UDP. A client (\<open>UdpConnectionEstablisher\<close>, \<open>src/udp/client.rs\<close>) sends the server a signed request
    that names up to ten trusted peers. The server (\<open>run_udp_server\<close>, \<open>src/server/udp.rs\<close>) keeps
    the request; when a named peer asks for the client in turn, it tells both. The two then punch
    a hole: they send each other \<open>punch\<close> and \<open>punch ack\<close> until both have seen both. On top of the
    punched socket \<open>UdpQuicConnectionEstablisher\<close> runs QUIC with certificates made of the
    trusted keys (\<open>src/udp/quic.rs\<close>).
  \<^item> TCP. A service (\<open>P2PTcpService\<close>, \<open>src/tcp/service.rs\<close>) announces a session to the server; a connector
    (\<open>P2PTcpConnector\<close>, \<open>src/tcp/connector.rs\<close>) asks for it. The service's next announcement takes the
    request, both are told to count down, and both connect to each other at once. The server
    has one task for each connection (\<open>handle_tcp_client\<close>, \<open>src/server.rs\<close>) over one shared
    state (\<open>src/server/tcp_state.rs\<close>).

  The theories, from the bottom up.

  \<^item> \<open>Prelude\<close>: machine integers, slices that may panic, little-endian fields, the result type
    \<open>('a, 'e) res\<close> with \<open>Ok\<close>, \<open>Err\<close> and \<open>Panic\<close>, instants and durations in nanoseconds, and the
    locale \<open>event_machine\<close> (an invariant kept by every event holds after every run).
  \<^item> \<open>Rust_Collections\<close>: \<open>HashMap\<close> and \<open>BTreeMap\<close> as association lists. The locale \<open>finite_table\<close> is
    the interface the components rely on, \<open>ordered_table\<close> extends it; both are interpreted on the
    two maps (\<open>hm\<close>, \<open>bt\<close>).
  \<^item> \<open>Net_Types\<close>: keys and signatures (arrays of 32 and 64 bytes), IP and socket addresses and
    their orders.
  \<^item> \<open>Udp_Messages\<close> (\<open>src/udp/messages.rs\<close>): all encoders and parsers. The locale \<open>datagram_codec\<close> states
    what a pair of them promises; it is interpreted on the request payload and on the server's
    messages. Lemmas: round trips, exact acceptance, no panics, lengths.
  \<^item> \<open>Udp_Server\<close> (\<open>src/server/udp.rs\<close>): \<open>udp_state\<close> is \<open>UdpState\<close>; \<open>handle_request\<close> is the body of the
    \<open>ConnectionRequest\<close> arm, \<open>handle_datagram\<close> everything done with one datagram, \<open>udp_server_loop\<close> the loop and
    \<open>run_udp_server\<close> the task, whose \<open>bind\<close> is unwrapped.
    The second half defines an abstract server, a finite relation of pending pairs with the
    sessions (\<open>sp_pairs\<close>, \<open>sp_sessions\<close>), and proves a functional refinement. The matching
    theorems are proved over the abstract server and carried to the code.
  \<^item> \<open>Rust_Strings\<close> (the standard library): \<open>strip_prefix\<close>, \<open>strip_suffix\<close>, \<open>trim\<close> and the parsing of numbers,
    with the round trip \<open>parse_decimal\<close>.
  \<^item> \<open>System_Time\<close> (\<open>check_system_time_error\<close>, \<open>src/udp/client.rs\<close>): the answer of the time service and
    the difference in hours, in 64-bit and \<open>f32\<close> arithmetic.
  \<^item> \<open>Interface_Tracker\<close> (\<open>src/p2p_interface_tracker.rs\<close>): the scan for the best network interface.
  \<^item> \<open>Peer_Table\<close> (\<open>src/udp/client.rs\<close>): the \<open>BTreeMap\<close> of trusted peers, its edits, the back-off after
    failures and the rotation (\<open>new_available_remotes_list\<close>).
  \<^item> \<open>Hole_Punch\<close> (\<open>src/udp/client.rs\<close>): \<open>hole_punch\<close>, its two loops, its error. The lemma
    \<open>hole_punch_meets\<close> joins the punches of two ends: both succeed when of each kind of packet
    that one has sent the other receives at least one in time.
  \<^item> \<open>Udp_Client\<close> (\<open>src/udp/client.rs\<close>): sockets, \<open>new\<close>, and \<open>poll_accept\<close> with every branch. The
    case rules \<open>poll_accept_cases\<close> and \<open>handle_initiate_cases\<close> list what a call can
    do; the function \<open>run_client\<close> lets calls and edits of the trusted list alternate.
  \<^item> \<open>Udp_System\<close>: the server and any number of clients over a network, as a step relation
    (\<open>net_step\<close>), with an invariant of all reachable states (\<open>net_inv\<close>) and consent of both ends.
  \<^item> \<open>Udp_Quic\<close> (\<open>src/udp/quic.rs\<close>, \<open>src/udp/client.rs\<close>): endpoints, the certificate verifiers with all their
    callbacks, the wrapping establisher.
  \<^item> \<open>Udp_Chat\<close> (\<open>examples/udp_chat.rs\<close>, \<open>examples/udp_quic_chat.rs\<close>): the two chat programs. What their
    main loops share is the locale \<open>session_loop\<close>, interpreted on both (\<open>chat\<close>, \<open>quic_chat\<close>).
  \<^item> \<open>Tcp_State\<close> (\<open>src/server/tcp_state.rs\<close>, \<open>src/tcp/messages.rs\<close>, \<open>src/tcp/mod.rs\<close>): announcements
    and pending requests, every operation under the mutex. The locale \<open>request_board\<close> states what
    the server's tasks rely on and is interpreted on the code's state (\<open>board\<close>).
  \<^item> \<open>Tcp_Server\<close> (\<open>src/server.rs\<close>): \<open>tcp_step\<close> interleaves the tasks of all connections over the
    shared state and the \<open>oneshot\<close> channels.
  \<^item> \<open>Tcp_Invariant\<close>: \<open>tcp_inv\<close>, an invariant of all states that \<open>tcp_step\<close> reaches: which channels are
    held, who waits on them, and with which request.
  \<^item> \<open>Tcp_Agreement\<close>: what each step does to one task (\<open>task_step\<close>) and one channel, and over the runs:
    every countdown goes back to one announcement that took a waiting connection's request
    (\<open>takes\<close>), after which both ends are told (\<open>both_told\<close>); a service's announcement of the session
    of a live request brings the two together; two requests for one session cancel each other.
  \<^item> \<open>Tcp_Client\<close> (\<open>src/tcp/connector.rs\<close>, \<open>service.rs\<close>, \<open>reusable_tcp_socket.rs\<close>): the two ends and the
    socket whose port they share.
  \<^item> \<open>Tcp_System\<close>: the TCP server together with one end: its counterpart, and where the address that
    it connects to comes from (\<open>announced_in\<close>).
  \<^item> \<open>Server_Setup\<close> (\<open>src/config.rs\<close>, \<open>src/server.rs\<close>, \<open>src/lib.rs\<close>): configurations, the tasks started,
    the shutdown flag and channel, the handler of Ctrl-C.
  \<^item> \<open>Tcp_Programs\<close> (\<open>examples/connector.rs\<close>, \<open>examples/service.rs\<close>, \<open>examples/server.rs\<close>): the programs
    around the TCP library and the server program.
  \<^item> This theory: what holds across components, a client's request at the server and the
    server's notifications at the two clients, from the server's answer to the two connections.

  How code and model correspond. A struct is a record with the fields of the source, an enum a
  datatype. An operation takes the state and returns the new one. An early return, an \<open>Err\<close> and a
  panic are values of the result. What the code reads from outside (clock readings, random
  numbers, the operating system's answers, what a \<open>select!\<close> completed with) is an argument; each
  clock reading has its own argument where another operation of the program can lie between two
  readings, and one argument where the readings follow each other without a pause. The order of
  a \<open>HashMap\<close>'s iteration is the order of the list that models it, and no property depends on it.

  Bounds. The loops of the model are recursion over the events the runtime delivers, one for each
  pass; there is no fuel. A handshake or a connection attempt that is still waiting when its
  events end has the value \<open>None\<close> (or \<open>Waiting\<close>). \<open>hole_punch_returns\<close> and \<open>poll_returns\<close>
  show when the events suffice: it is enough that some pass of each loop reads a clock at or
  after the deadline, 500 ms after the start of the punch phase and 200 ms after the start of the
  drain, and the ticks every 20 ms and the \<open>timeout_at\<close> see to it that a pass comes.

  Parameters. \<open>ed25519_dalek\<close> (record \<open>ed25519\<close>), \<open>chrono\<close> (record \<open>chrono\<close>), and for QUIC \<open>rcgen\<close>,
  \<open>x509_parser\<close>, \<open>rustls\<close> and \<open>quinn\<close> (record \<open>quic_lib\<close>). What is assumed of them is named (\<open>ed25519_ok\<close>,
  \<open>chrono_ok\<close>, and the assumption on QUIC handshakes) and is met by a concrete instance in the
  witnesses. The message channel of \<open>reprise_net_util\<close> and the list of interfaces of
  \<open>multicast_discovery_socket\<close> appear as the results of their calls.

  Assumptions about the network. \<open>mutual_consent\<close> is about a network that loses, repeats, delays
  and reorders datagrams. It assumes that what comes to a client from the server's address was
  sent there by the server (\<open>delivered\<close>) and that a request signed with a client's key was made
  by that client and comes from an address of that client (\<open>genuine\<close>). The code enforces neither:
  notifications are not signed and the source address is not part of what is signed, and
  \<open>replay_redirects\<close> shows what happens when the second fails. \<open>tcp_ends_meet\<close> assumes that an end
  receives the messages that its task at the server has sent, from the first on (\<open>heard\<close>).

  Not modelled. Logging and what the programs only print; the web request of
  \<open>check_system_time_error\<close> itself, known by its outcome; the \<open>bincode\<close> encoding of TCP messages, which
  belongs to \<open>reprise_net_util\<close>; the pauses that change no state (100 ms and 200 ms in the UDP
  client, the seconds between the rounds of the TCP programs). The text that the chat programs
  read is ASCII, and their \<open>base64\<close> decoder is a parameter. Within one handler of a message the
  clock readings that follow each other without a pause are one. The sends with which a TCP task
  answers a message are one step with it, and the clocks of different steps of the TCP server are
  not compared (see \<open>Tcp_Server\<close>). There is no step relation that joins several connectors and
  services with the TCP server: \<open>Tcp_System\<close> joins one end with it.
\<close>

section \<open>From a client through the server to its peer\<close>

text \<open>C7: Every datagram a client's call sends to the server, other than the packets of a hole punch, is
  handled by the server as the connection request of that client: under its key and its current
  session id, from whatever address it arrives from, for one to ten peers that the client trusts
  and whose discovery it has enabled.\<close>

theorem client_request_served:
  assumes "chrono_ok ch" and "ed25519_ok ed" and "table_ok st"
    and "poll_accept ch ed windows env st = Answered r st' sent"
    and "(sock, datagram, dst) \<in> set sent" and "datagram \<noteq> punch_msg" and "datagram \<noteq> punch_ack_msg"
    and "from_timestamp_millis ch (timestamp_millis ch (pe_utc env)) = Some d" and "\<bar>diff_seconds ch utc d\<bar> \<le> 30"
  shows "dst = SockV4 (p2p_server_addr st) \<and> (\<exists>ks.
      handle_datagram ch ed utc now (SockV4 addr) datagram sv =
        (let (sv', out) = handle_request \<lparr>rq_now = now, rq_addr = addr,
             rq_sender = verifying_key ed (est_key st), rq_peers = ks, rq_session = session_id st\<rparr> sv
         in Ok (sv', map (\<lambda>(dst, m). (dst, from_server_to_bytes m)) out))
      \<and> 0 < length ks \<and> length ks \<le> 10
      \<and> (\<forall>k \<in> set ks. enabled_at (pe_list_now env) (trusted_remotes st) k))"
proof -
  have req: "dst = SockV4 (p2p_server_addr st) \<and> (\<exists>ks.
      signed_to_bytes ch ed (pe_utc env) (est_key st) (ConnectionRequest ks (session_id st)) = Ok datagram
      \<and> 0 < length ks \<and> length ks \<le> 10 \<and> (\<forall>k \<in> set ks. enabled_at (pe_list_now env) (trusted_remotes st) k))"
    if "request_sent ch ed env st reqs" "(sock, datagram, dst) \<in> set reqs" for reqs
    using that unfolding request_sent_def by fastforce
  from assms(4,3) have "\<exists>reqs. request_sent ch ed env st reqs \<and> (sock, datagram, dst) \<in> set reqs"
  proof (cases rule: poll_accept_effect)
    case quiet
    with assms(5) show ?thesis by blast
  next
    case (tried k p a rid l out punches reqs sock')
    have "hole_punch (SockV4 a) (pe_punch env) = Some (out, punches)" using tried(1) by (simp add: punched_def)
    from hole_punch_packets [OF this] assms(6,7) have "(datagram, dst) \<notin> set punches" by blast
    with assms(5) tried(6,7) show ?thesis by auto
  qed
  then obtain reqs where reqs: "request_sent ch ed env st reqs" "(sock, datagram, dst) \<in> set reqs" by blast
  from req [OF reqs] obtain ks where dst: "dst = SockV4 (p2p_server_addr st)"
    and s: "signed_to_bytes ch ed (pe_utc env) (est_key st) (ConnectionRequest ks (session_id st)) = Ok datagram"
    and ks: "0 < length ks" "length ks \<le> 10" "\<forall>k \<in> set ks. enabled_at (pe_list_now env) (trusted_remotes st) k"
    by blast
  from request_datagram_handled [OF assms(1,2) s assms(8,9)] dst ks show ?thesis by blast
qed

theorem client_request_served_witness:
  "\<exists>ks. handle_datagram chrono_ms ed25519_plain 7 0 (SockV4 (sock4 (Ipv4 1 2 3 4) 5)) ex_datagram udp_state_new =
      (let (sv', out) = handle_request \<lparr>rq_now = 0, rq_addr = sock4 (Ipv4 1 2 3 4) 5,
           rq_sender = verifying_key ed25519_plain (est_key ex_client), rq_peers = ks,
           rq_session = session_id ex_client\<rparr> udp_state_new
       in Ok (sv', map (\<lambda>(dst, m). (dst, from_server_to_bytes m)) out))"
proof -
  have "length ex_datagram = 144"
    using length_signed_to_bytes [OF ex_signed] by simp
  then have "length ex_datagram \<noteq> length punch_msg" "length ex_datagram \<noteq> length punch_ack_msg"
    by (simp_all add: punch_msg_def punch_ack_msg_def)
  then have n: "ex_datagram \<noteq> punch_msg" "ex_datagram \<noteq> punch_ack_msg" by metis+
  have s: "(est_socket ex_client, ex_datagram, SockV4 ex_server) \<in> set ex_sent" by (simp add: ex_sent_def)
  have d: "from_timestamp_millis chrono_ms (timestamp_millis chrono_ms (pe_utc ex_env)) = Some 5"
    by (simp add: chrono_ms_def ex_env_def)
  have "\<bar>diff_seconds chrono_ms 7 5\<bar> \<le> 30" by (simp add: ex_datagram_age)
  from client_request_served [OF chrono_ms_ok ed25519_plain_ok ex_client_ok ex_poll s n d this] show ?thesis by blast
qed

text \<open>What the server sends for one datagram, in a state it can be in.\<close>

lemma two_notifications:
  assumes "\<forall>q \<in> set rs. valid_request q"
    and "handle_datagram ch ed utc now src msg (served rs) = Ok (st', out)"
    and "(a, m\<^sub>A) \<in> set out" and "(b, m\<^sub>B) \<in> set out" and "m\<^sub>A \<noteq> m\<^sub>B"
  obtains q r where "out = [(rq_addr q, from_server_to_bytes (to_original r)),
      (rq_addr r, from_server_to_bytes (to_new (new_pending q)))]"
  using assms(2)
proof (cases rule: handle_datagram_cases)
  case ignored
  with assms(3) show ?thesis by simp
next
  case (served addr peers sid k t)
  let ?r = "\<lparr>rq_now = now, rq_addr = addr, rq_sender = k, rq_peers = peers, rq_session = sid\<rparr>"
  show ?thesis
  proof (cases rule: handle_request_out_cases [OF served_inv [OF assms(1)], of ?r, case_names silent lost matched])
    case silent
    with served(5) assms(3) show ?thesis by simp
  next
    case (lost s)
    with served(5) assms(3-5) show ?thesis by auto
  next
    case (matched q)
    with served(5) that [of q ?r] show ?thesis by simp
  qed
qed

lemma notification_parse: "from_server_try_parse (from_server_to_bytes m) = Ok m"
  using from_server_try_parse_to_bytes [of m "[]"] by simp

lemma notifications_paired:
  assumes "\<forall>q \<in> set rs. valid_request q"
    and "handle_datagram ch ed utc now src msg (served rs) = Ok (st', out)"
    and "(a, m\<^sub>A) \<in> set out" and "(b, m\<^sub>B) \<in> set out" and "m\<^sub>A \<noteq> m\<^sub>B"
  obtains k\<^sub>A s\<^sub>A k\<^sub>B s\<^sub>B l where "from_server_try_parse m\<^sub>A = Ok (InitiateConnectionRequest k\<^sub>B b s\<^sub>B l)"
    "from_server_try_parse m\<^sub>B = Ok (InitiateConnectionRequest k\<^sub>A a s\<^sub>A (\<not> l))"
proof -
  from two_notifications [OF assms] obtain q r where
    out: "out = [(rq_addr q, from_server_to_bytes (to_original r)),
      (rq_addr r, from_server_to_bytes (to_new (new_pending q)))]" .
  have parsed: "from_server_try_parse (from_server_to_bytes (to_original r)) =
      Ok (InitiateConnectionRequest (rq_sender r) (rq_addr r) (rq_session r) False)"
    "from_server_try_parse (from_server_to_bytes (to_new (new_pending q))) =
      Ok (InitiateConnectionRequest (rq_sender q) (rq_addr q) (rq_session q) True)"
    by (simp_all add: notification_parse to_original_def to_new_def new_pending_def del: from_server_to_bytes.simps)
  from out assms(3-5) consider
    (original) "a = rq_addr q" "m\<^sub>A = from_server_to_bytes (to_original r)"
      "b = rq_addr r" "m\<^sub>B = from_server_to_bytes (to_new (new_pending q))"
  | (new) "a = rq_addr r" "m\<^sub>A = from_server_to_bytes (to_new (new_pending q))"
      "b = rq_addr q" "m\<^sub>B = from_server_to_bytes (to_original r)"
    by (auto simp del: from_server_to_bytes.simps)
  then show ?thesis
  proof cases
    case original
    with parsed that [of "rq_sender r" "rq_session r" False "rq_sender q" "rq_session q"] show ?thesis by simp
  next
    case new
    with parsed that [of "rq_sender q" "rq_session q" True "rq_sender r" "rq_session r"] show ?thesis by simp
  qed
qed

text \<open>C5: The two clients of a match meet: when the server's two notifications for one datagram reach two
  clients and each call returns a connection, then each client punched a hole to the address
  the other's notification was sent to, and exactly one of the two is the listener, so that one
  end opens the QUIC connection and the other accepts it.\<close>

theorem matched_clients_meet:
  assumes "\<forall>q \<in> set rs. valid_request q"
    and "handle_datagram ch ed utc now src msg (served rs) = Ok (st', out)"
    and "(a, m\<^sub>A) \<in> set out" and "(b, m\<^sub>B) \<in> set out" and "m\<^sub>A \<noteq> m\<^sub>B"
    and A: "poll_accept ch\<^sub>A ed\<^sub>A windows\<^sub>A env\<^sub>A st\<^sub>A = Answered (Some (Ok c\<^sub>A)) st\<^sub>A' sent\<^sub>A" "table_ok st\<^sub>A"
      "pe_recv env\<^sub>A = RecvFrom m\<^sub>A src\<^sub>A"
    and B: "poll_accept ch\<^sub>B ed\<^sub>B windows\<^sub>B env\<^sub>B st\<^sub>B = Answered (Some (Ok c\<^sub>B)) st\<^sub>B' sent\<^sub>B" "table_ok st\<^sub>B"
      "pe_recv env\<^sub>B = RecvFrom m\<^sub>B src\<^sub>B"
  shows "nc_is_listener c\<^sub>A \<noteq> nc_is_listener c\<^sub>B
    \<and> (\<exists>sent. hole_punch (SockV4 b) (pe_punch env\<^sub>A) = Some (Ok (nc_remote_addr c\<^sub>A), sent))
    \<and> (\<exists>sent. hole_punch (SockV4 a) (pe_punch env\<^sub>B) = Some (Ok (nc_remote_addr c\<^sub>B), sent))"
proof -
  from notifications_paired [OF assms(1-5)] obtain k\<^sub>A s\<^sub>A k\<^sub>B s\<^sub>B l where
    m: "from_server_try_parse m\<^sub>A = Ok (InitiateConnectionRequest k\<^sub>B b s\<^sub>B l)"
      "from_server_try_parse m\<^sub>B = Ok (InitiateConnectionRequest k\<^sub>A a s\<^sub>A (\<not> l))" .
  from poll_connection_source [OF A(1,2)] obtain m a' rid p where
    "pe_recv env\<^sub>A = RecvFrom m (SockV4 (p2p_server_addr st\<^sub>A))"
    "from_server_try_parse m = Ok (InitiateConnectionRequest (nc_pubkey c\<^sub>A) a' rid (nc_is_listener c\<^sub>A))"
    "hole_punch (SockV4 a') (pe_punch env\<^sub>A) = Some (Ok (nc_remote_addr c\<^sub>A), p)" .
  with A(3) m(1) have "nc_is_listener c\<^sub>A = l" "hole_punch (SockV4 b) (pe_punch env\<^sub>A) = Some (Ok (nc_remote_addr c\<^sub>A), p)"
    by simp_all
  moreover from poll_connection_source [OF B(1,2)] obtain m' b' rid' p' where
    "pe_recv env\<^sub>B = RecvFrom m' (SockV4 (p2p_server_addr st\<^sub>B))"
    "from_server_try_parse m' = Ok (InitiateConnectionRequest (nc_pubkey c\<^sub>B) b' rid' (nc_is_listener c\<^sub>B))"
    "hole_punch (SockV4 b') (pe_punch env\<^sub>B) = Some (Ok (nc_remote_addr c\<^sub>B), p')" .
  with B(3) m(2) have "nc_is_listener c\<^sub>B = (\<not> l)" "hole_punch (SockV4 a) (pe_punch env\<^sub>B) = Some (Ok (nc_remote_addr c\<^sub>B), p')"
    by simp_all
  ultimately show ?thesis by simp
qed

text \<open>The two clients of the server's example, each receiving its notification.\<close>

definition ex_listening :: "pubkey \<Rightarrow> pubkey establisher" where
  "ex_listening k = ex_client\<lparr>trusted_remotes := [(k, peer_state_default)], last_request_tm := Some 0\<rparr>"

lemma ex_notified_poll:
  "\<exists>st' sent. poll_accept chrono_ms ed25519_plain False (ex_notified (InitiateConnectionRequest k a rid l)) (ex_listening k) =
    Answered (Some (Ok \<lparr>nc_pubkey = k, nc_remote_addr = ex_peer 8, nc_socket = est_socket ex_client, nc_is_listener = l\<rparr>)) st' sent"
  using ex_waiting_poll [of "ex_listening k" k] by (simp add: ex_listening_def ex_client_def)

lemma ex_listening_ok: "table_ok (ex_listening k)"
  by (auto simp: table_ok_def ex_listening_def bt_ok_def bt_get_def split: if_splits)

lemma ex_match_handled:
  obtains datagram st' where "handle_datagram chrono_ms ed25519_plain 7 (rq_now ex_bob) (SockV4 (rq_addr ex_bob)) datagram (served [ex_alice]) =
    Ok (st', [(rq_addr ex_alice, from_server_to_bytes (to_original ex_bob)),
      (rq_addr ex_bob, from_server_to_bytes (to_new (new_pending ex_alice)))])"
proof -
  obtain datagram where sig: "signed_to_bytes chrono_ms ed25519_plain 5 (key_fill 2)
      (ConnectionRequest [key_fill 3, key_fill 1] 11) = Ok datagram"
    by (simp add: signed_to_bytes_def payload_to_bytes_def)
  have d: "from_timestamp_millis chrono_ms (timestamp_millis chrono_ms 5) = Some 5" by (simp add: chrono_ms_def)
  have bob: "ex_bob = \<lparr>rq_now = rq_now ex_bob, rq_addr = rq_addr ex_bob, rq_sender = verifying_key ed25519_plain (key_fill 2),
      rq_peers = [key_fill 3, key_fill 1], rq_session = 11\<rparr>"
    by (simp add: ex_bob_def ed25519_plain_def)
  note handled = request_datagram_handled [OF chrono_ms_ok ed25519_plain_ok sig d, of 7 "rq_now ex_bob" "rq_addr ex_bob"
      "served [ex_alice]", unfolded bob [symmetric]]
  have "\<exists>st'. handle_datagram chrono_ms ed25519_plain 7 (rq_now ex_bob) (SockV4 (rq_addr ex_bob)) datagram (served [ex_alice]) =
      Ok (st', [(rq_addr ex_alice, from_server_to_bytes (to_original ex_bob)), (rq_addr ex_bob, from_server_to_bytes (to_new (new_pending ex_alice)))])"
    using handled ex_bob_matched
    by (simp add: ex_datagram_age served_def serve_def case_prod_unfold Let_def del: from_server_to_bytes.simps)
  with that show ?thesis by blast
qed

lemma ex_notifications_differ:
  "from_server_to_bytes (to_original ex_bob) \<noteq> from_server_to_bytes (to_new (new_pending ex_alice))"
  using server_codec.enc_inj by (fastforce simp: to_original_def to_new_def)

theorem matched_clients_meet_witness:
  "\<exists>sent. hole_punch (SockV4 (rq_addr ex_bob)) ex_trace = Some (Ok (ex_peer 8), sent)"
proof -
  let ?A = "to_original ex_bob" and ?B = "to_new (new_pending ex_alice)"
  from ex_match_handled obtain datagram st' where h: "handle_datagram chrono_ms ed25519_plain 7 (rq_now ex_bob) (SockV4 (rq_addr ex_bob)) datagram (served [ex_alice]) =
      Ok (st', [(rq_addr ex_alice, from_server_to_bytes ?A), (rq_addr ex_bob, from_server_to_bytes ?B)])" .
  obtain stA sA where A: "poll_accept chrono_ms ed25519_plain False (ex_notified ?A) (ex_listening (key_fill 2)) =
      Answered (Some (Ok \<lparr>nc_pubkey = key_fill 2, nc_remote_addr = ex_peer 8, nc_socket = est_socket ex_client, nc_is_listener = False\<rparr>)) stA sA"
    using ex_notified_poll [of "key_fill 2" "rq_addr ex_bob" 11 False] by (auto simp: to_original_def)
  obtain stB sB where B: "poll_accept chrono_ms ed25519_plain False (ex_notified ?B) (ex_listening (key_fill 1)) =
      Answered (Some (Ok \<lparr>nc_pubkey = key_fill 1, nc_remote_addr = ex_peer 8, nc_socket = est_socket ex_client, nc_is_listener = True\<rparr>)) stB sB"
    using ex_notified_poll [of "key_fill 1" "rq_addr ex_alice" 9 True] by (auto simp: to_new_def new_pending_def)
  have recv: "pe_recv (ex_notified m) = RecvFrom (from_server_to_bytes m) (SockV4 ex_server)"
    "pe_punch (ex_notified m) = ex_trace" for m
    by (simp_all add: ex_notified_def ex_env_def)
  from matched_clients_meet [OF _ h _ _ ex_notifications_differ A ex_listening_ok recv(1) B ex_listening_ok recv(1),
      of "rq_addr ex_alice" "rq_addr ex_bob"] recv(2)
  show ?thesis by simp
qed

text \<open>A hole punch towards \<open>peer\<close> that has sent a punch and hears nobody else.\<close>

definition punches_at :: "'dt poll_env \<Rightarrow> socket_addr \<Rightarrow> (bytes \<times> socket_addr) list \<Rightarrow> bool" where
  "punches_at env peer sent \<longleftrightarrow> (\<exists>r. hole_punch peer (pe_punch env) = Some (r, sent))
     \<and> (punch_msg, peer) \<in> set sent \<and> only_from peer (punch_timely (pe_punch env))"

definition acts_on :: "'dt poll_env \<Rightarrow> 'sk establisher \<Rightarrow> bytes \<Rightarrow> bool" where
  "acts_on env st m \<longleftrightarrow> pe_recv env = RecvFrom m (SockV4 (p2p_server_addr st))
     \<and> (\<forall>k a rid l. from_server_try_parse m = Ok (InitiateConnectionRequest k a rid l) \<longrightarrow> willing env st k rid)"

lemma acts_on_connects:
  assumes "acts_on env st m" and "from_server_try_parse m = Ok (InitiateConnectionRequest k a rid l)"
    and "hole_punch (SockV4 a) (pe_punch env) = Some (Ok (SockV4 a), sent)"
  shows "\<exists>c st' out. poll_accept ch ed windows env st = Answered (Some (Ok c)) st' out
    \<and> nc_remote_addr c = SockV4 a \<and> nc_is_listener c = l"
proof -
  from assms(1,2) have "willing env st k rid" "pe_recv env = RecvFrom m (SockV4 (p2p_server_addr st))"
    unfolding acts_on_def by blast+
  from poll_connects_willing [OF this assms(2,3), of ch ed windows] show ?thesis by fastforce
qed

text \<open>C6: The two clients of a match connect: when the server's two notifications for one datagram reach two
  clients that trust the peer they name and have not connected to it, and the network
  between their addresses delivers in time at least one of each kind of packet that a hole punch
  sends, then both calls return a connection, each to the address the other's notification was
  sent to, and exactly one of the two is the listener.\<close>

theorem matched_clients_connect:
  assumes "\<forall>q \<in> set rs. valid_request q"
    and "handle_datagram ch ed utc now src msg (served rs) = Ok (st', out)"
    and "(a, m\<^sub>A) \<in> set out" and "(b, m\<^sub>B) \<in> set out" and "m\<^sub>A \<noteq> m\<^sub>B"
    and A: "acts_on env\<^sub>A st\<^sub>A m\<^sub>A" "punches_at env\<^sub>A (SockV4 b) sent\<^sub>A"
    and B: "acts_on env\<^sub>B st\<^sub>B m\<^sub>B" "punches_at env\<^sub>B (SockV4 a) sent\<^sub>B"
    and network: "\<And>m. (m, SockV4 b) \<in> set sent\<^sub>A \<Longrightarrow> RecvOk m (SockV4 a) \<in> set (punch_timely (pe_punch env\<^sub>B))"
      "\<And>m. (m, SockV4 a) \<in> set sent\<^sub>B \<Longrightarrow> RecvOk m (SockV4 b) \<in> set (punch_timely (pe_punch env\<^sub>A))"
  shows "\<exists>c\<^sub>A st\<^sub>A' out\<^sub>A c\<^sub>B st\<^sub>B' out\<^sub>B.
      poll_accept ch\<^sub>A ed\<^sub>A windows\<^sub>A env\<^sub>A st\<^sub>A = Answered (Some (Ok c\<^sub>A)) st\<^sub>A' out\<^sub>A
    \<and> poll_accept ch\<^sub>B ed\<^sub>B windows\<^sub>B env\<^sub>B st\<^sub>B = Answered (Some (Ok c\<^sub>B)) st\<^sub>B' out\<^sub>B
    \<and> nc_remote_addr c\<^sub>A = SockV4 b \<and> nc_remote_addr c\<^sub>B = SockV4 a \<and> nc_is_listener c\<^sub>A \<noteq> nc_is_listener c\<^sub>B"
proof -
  from notifications_paired [OF assms(1-5)] obtain k\<^sub>A s\<^sub>A k\<^sub>B s\<^sub>B l where
    m: "from_server_try_parse m\<^sub>A = Ok (InitiateConnectionRequest k\<^sub>B b s\<^sub>B l)"
      "from_server_try_parse m\<^sub>B = Ok (InitiateConnectionRequest k\<^sub>A a s\<^sub>A (\<not> l))" .
  from A(2) B(2) obtain r\<^sub>A r\<^sub>B where
    pA: "hole_punch (SockV4 b) (pe_punch env\<^sub>A) = Some (r\<^sub>A, sent\<^sub>A)" "(punch_msg, SockV4 b) \<in> set sent\<^sub>A"
      "only_from (SockV4 b) (punch_timely (pe_punch env\<^sub>A))" and
    pB: "hole_punch (SockV4 a) (pe_punch env\<^sub>B) = Some (r\<^sub>B, sent\<^sub>B)" "(punch_msg, SockV4 a) \<in> set sent\<^sub>B"
      "only_from (SockV4 a) (punch_timely (pe_punch env\<^sub>B))"
    unfolding punches_at_def by blast
  from hole_punch_meets [OF pA pB network] have "r\<^sub>A = Ok (SockV4 b)" "r\<^sub>B = Ok (SockV4 a)" by simp_all
  with acts_on_connects [OF A(1) m(1), of sent\<^sub>A ch\<^sub>A ed\<^sub>A windows\<^sub>A]
    acts_on_connects [OF B(1) m(2), of sent\<^sub>B ch\<^sub>B ed\<^sub>B windows\<^sub>B] pA(1) pB(1)
  show ?thesis by blast
qed

definition ex_meeting :: "from_server \<Rightarrow> sockaddr_v4 \<Rightarrow> i64 poll_env" where
  "ex_meeting m other = (ex_notified m)\<lparr>pe_punch := ex_meet (SockV4 other)\<rparr>"

lemma ex_meeting_acts: "acts_on (ex_meeting (InitiateConnectionRequest k a rid l) other) (ex_listening k)
    (from_server_to_bytes (InitiateConnectionRequest k a rid l))"
proof -
  have "willing (ex_meeting m other) (ex_listening k) k rid" for m
    unfolding willing_def using ex_listening_ok
    by (simp add: ex_meeting_def ex_notified_def ex_env_def ex_listening_def ex_client_def os_ok_def bt_get_def
        is_discovery_enabled_def peer_state_default_def request_due_def time_simps REQUEST_PLACEMENT_INTERVAL_def)
  then show ?thesis
    unfolding acts_on_def ex_parse
    by (simp add: ex_meeting_def ex_notified_def ex_env_def ex_listening_def ex_client_def del: from_server_to_bytes.simps)
qed

lemma ex_meeting_punch: "pe_punch (ex_meeting m other) = ex_meet (SockV4 other)"
  by (simp add: ex_meeting_def)

lemma ex_meeting_punches:
  "punches_at (ex_meeting m other) (SockV4 other) [(punch_msg, SockV4 other), (punch_ack_msg, SockV4 other)]"
  unfolding punches_at_def ex_meeting_punch ex_meet_run ex_meet_timely by (simp add: only_from_def)

theorem matched_clients_connect_witness:
  "\<exists>c\<^sub>A st\<^sub>A out\<^sub>A c\<^sub>B st\<^sub>B out\<^sub>B.
      poll_accept chrono_ms ed25519_plain False (ex_meeting (to_original ex_bob) (rq_addr ex_bob)) (ex_listening (key_fill 2)) =
        Answered (Some (Ok c\<^sub>A)) st\<^sub>A out\<^sub>A
    \<and> poll_accept chrono_ms ed25519_plain False (ex_meeting (to_new (new_pending ex_alice)) (rq_addr ex_alice)) (ex_listening (key_fill 1)) =
        Answered (Some (Ok c\<^sub>B)) st\<^sub>B out\<^sub>B
    \<and> nc_remote_addr c\<^sub>A = SockV4 (rq_addr ex_bob) \<and> nc_remote_addr c\<^sub>B = SockV4 (rq_addr ex_alice)
    \<and> nc_is_listener c\<^sub>A \<noteq> nc_is_listener c\<^sub>B"
proof -
  let ?A = "to_original ex_bob" and ?B = "to_new (new_pending ex_alice)"
  from ex_match_handled obtain datagram st' where h: "handle_datagram chrono_ms ed25519_plain 7 (rq_now ex_bob) (SockV4 (rq_addr ex_bob)) datagram (served [ex_alice]) =
      Ok (st', [(rq_addr ex_alice, from_server_to_bytes ?A), (rq_addr ex_bob, from_server_to_bytes ?B)])" .
  have A: "acts_on (ex_meeting ?A (rq_addr ex_bob)) (ex_listening (key_fill 2)) (from_server_to_bytes ?A)"
    and B: "acts_on (ex_meeting ?B (rq_addr ex_alice)) (ex_listening (key_fill 1)) (from_server_to_bytes ?B)"
    using ex_meeting_acts [of "key_fill 2" "rq_addr ex_bob" 11 False "rq_addr ex_bob"]
      ex_meeting_acts [of "key_fill 1" "rq_addr ex_alice" 9 True "rq_addr ex_alice"]
    by (simp_all add: to_original_def to_new_def new_pending_def del: from_server_to_bytes.simps)
  show ?thesis
    by (rule matched_clients_connect [OF _ h _ _ ex_notifications_differ A ex_meeting_punches B ex_meeting_punches])
      (auto simp: ex_meeting_punch ex_meet_timely simp del: from_server_to_bytes.simps)
qed

end
